theory Spec2Isabelle
  imports Main "HOL-Library.Sublist"
begin

section \<open>The objects the operator reads and writes\<close>

text \<open>
  The operator (\<open>src/unnamed/part_000\<close>) works on Kubernetes objects. Only the fields the
  code touches are kept. A Go pointer field is an \<open>option\<close>: \<open>None\<close> is the nil pointer.
\<close>

record ObjectMeta =
  Name :: string
  Namespace :: string

text \<open>\<open>autoscalingv1.CrossVersionObjectReference\<close>; its Go field \<open>Name\<close> is \<open>RefName\<close> here.\<close>

record CrossVersionObjectReference =
  APIVersion :: string
  Kind :: string
  RefName :: string

record PodUpdatePolicy =
  UpdateMode :: "string option"

record VerticalPodAutoscalerSpec =
  TargetRef :: "CrossVersionObjectReference option"
  UpdatePolicy :: "PodUpdatePolicy option"

record VerticalPodAutoscaler = ObjectMeta +
  Spec :: VerticalPodAutoscalerSpec

text \<open>
  A Deployment, StatefulSet or DaemonSet is used only through the \<open>vpaTarget\<close> interface
  (\<open>GetName\<close>, \<open>GetNamespace\<close>) and through its \<open>Name\<close> and \<open>Namespace\<close> fields.
\<close>

type_synonym vpaTarget = ObjectMeta

text \<open>
  Modelled from the spec: the constant \<open>autoscalerv1.UpdateModeOff\<close> belongs to the
  vertical-pod-autoscaler API package, which is not under \<open>src/\<close>; the spec gives the
  update mode of a managed object as "Off".
\<close>

definition UpdateModeOff :: string where
  "UpdateModeOff = ''Off''"

section \<open>Panics, log records and API calls\<close>

text \<open>
  A read through a nil pointer ends the process with a runtime error; the trace it prints
  names the line of \<open>part_000\<close> that made the read, which is what the panic carries.
\<close>

datatype panic = NilPointerDereference nat

datatype level = Info | Warn | Error

text \<open>
  What one cycle does to the outside world, in the order it does it: a structured log
  record (level, message, attributes), a create call (namespace, object) or a delete call
  (namespace, name) on the VerticalPodAutoscaler API.
\<close>

datatype event =
    Slog level string "(string \<times> string) list"
  | Create string VerticalPodAutoscaler
  | Delete string string

text \<open>
  The two clients handed to \<open>createVPAs\<close>. The state of the VerticalPodAutoscaler API is
  the list of objects it stores. A client is described by the errors it answers with: the
  answer to a create or delete call may depend on the stored objects and on the call's
  arguments, and \<open>None\<close> means the call succeeds. A successful create stores the object, a
  successful delete removes the object of that namespace and name. As the generated
  clientset does, a failed create hands back an empty object, not a nil pointer.
\<close>

record VPAClient =
  listErr :: "string option"
  createErr :: "VerticalPodAutoscaler list \<Rightarrow> VerticalPodAutoscaler \<Rightarrow> string option"
  deleteErr :: "VerticalPodAutoscaler list \<Rightarrow> string \<Rightarrow> string \<Rightarrow> string option"

record K8sClient =
  Deployments :: "string + vpaTarget list"
  StatefulSets :: "string + vpaTarget list"
  DaemonSets :: "string + vpaTarget list"

definition emptyVPA :: VerticalPodAutoscaler where
  "emptyVPA = \<lparr>Name = [], Namespace = [],
                Spec = \<lparr>TargetRef = None, UpdatePolicy = None\<rparr>\<rparr>"

definition ListVPAs ::
  "VPAClient \<Rightarrow> VerticalPodAutoscaler list \<Rightarrow> string + VerticalPodAutoscaler list" where
  "ListVPAs c st = (case listErr c of Some e \<Rightarrow> Inl e | None \<Rightarrow> Inr st)"

definition CreateVPA ::
  "VPAClient \<Rightarrow> string \<Rightarrow> VerticalPodAutoscaler \<Rightarrow> VerticalPodAutoscaler list
     \<Rightarrow> (VerticalPodAutoscaler \<times> string option) \<times> VerticalPodAutoscaler list" where
  "CreateVPA c ns obj st =
     (case createErr c st obj of
        Some e \<Rightarrow> ((emptyVPA, Some e), st)
      | None \<Rightarrow> ((obj, None), st @ [obj]))"

definition DeleteVPA ::
  "VPAClient \<Rightarrow> string \<Rightarrow> string \<Rightarrow> VerticalPodAutoscaler list
     \<Rightarrow> string option \<times> VerticalPodAutoscaler list" where
  "DeleteVPA c ns n st =
     (case deleteErr c st ns n of
        Some e \<Rightarrow> (Some e, st)
      | None \<Rightarrow> (None, filter (\<lambda>x. \<not> (Namespace x = ns \<and> Name x = n)) st))"

section \<open>The reconciliation cycle\<close>

text \<open>
  \<open>slices.ContainsFunc\<close>: the first element the predicate accepts ends the search.
  \<open>ContainsFuncE\<close> is the same search for a predicate that can panic; the panic of the
  first element that raises one ends the search.
\<close>

fun ContainsFunc :: "'a list \<Rightarrow> ('a \<Rightarrow> bool) \<Rightarrow> bool" where
  "ContainsFunc [] f = False"
| "ContainsFunc (x # xs) f = (if f x then True else ContainsFunc xs f)"

fun ContainsFuncE :: "'a list \<Rightarrow> ('a \<Rightarrow> panic + bool) \<Rightarrow> panic + bool" where
  "ContainsFuncE [] f = Inr False"
| "ContainsFuncE (x # xs) f =
     (case f x of
        Inl p \<Rightarrow> Inl p
      | Inr b \<Rightarrow> if b then Inr True else ContainsFuncE xs f)"

text \<open>The object \<open>createVPA\<close> builds for a target.\<close>

definition managedVPA :: "string \<Rightarrow> string \<Rightarrow> vpaTarget \<Rightarrow> VerticalPodAutoscaler" where
  "managedVPA apiVersion kind target =
     \<lparr>Name = Name target, Namespace = Namespace target,
      Spec = \<lparr>TargetRef = Some \<lparr>APIVersion = apiVersion, Kind = kind, RefName = Name target\<rparr>,
              UpdatePolicy = Some \<lparr>UpdateMode = Some UpdateModeOff\<rparr>\<rparr>\<rparr>"

text \<open>
  \<open>createVPA\<close>: nothing happens when some object of the snapshot \<open>vpas\<close> has the target's
  name and namespace. Otherwise the object is built and submitted; a failed call is logged
  as a warning and the function goes on to its last log line.
\<close>

definition createVPA ::
  "vpaTarget \<Rightarrow> string \<Rightarrow> string \<Rightarrow> VerticalPodAutoscaler list \<Rightarrow> VPAClient
     \<Rightarrow> VerticalPodAutoscaler list \<Rightarrow> event list \<times> VerticalPodAutoscaler list" where
  "createVPA target apiVersion kind vpas vpaClient st =
     (if ContainsFunc vpas (\<lambda>v. Name target = Name v \<and> Namespace target = Namespace v)
      then ([], st)
      else
        let ev1 = [Slog Info ''building VPA''
                     [(''name'', Name target), (''namespace'', Namespace target)]];
            obj = managedVPA apiVersion kind target;
            ((res, err), st') = CreateVPA vpaClient (Namespace target) obj st;
            ev2 = [Create (Namespace target) obj];
            ev3 = (case err of
                     Some e \<Rightarrow> [Slog Warn ''failed to create vpa''
                                  [(''error'', e), (''name'', Name target),
                                   (''namespace'', Namespace target)]]
                   | None \<Rightarrow> []);
            ev4 = [Slog Info ''created'' [(''vpa'', Name res), (''namespace'', Namespace res)]]
        in (ev1 @ ev2 @ ev3 @ ev4, st'))"

text \<open>The loop \<open>for _, d := range items { createVPA(&d, "apps/v1", kind, vpas, vpaClient) }\<close>.\<close>

fun createRange ::
  "vpaTarget list \<Rightarrow> string \<Rightarrow> VerticalPodAutoscaler list \<Rightarrow> VPAClient
     \<Rightarrow> VerticalPodAutoscaler list \<Rightarrow> event list \<times> VerticalPodAutoscaler list" where
  "createRange [] kind vpas vpaClient st = ([], st)"
| "createRange (d # ds) kind vpas vpaClient st =
     (let (ev1, st1) = createVPA d ''apps/v1'' kind vpas vpaClient st;
          (ev2, st2) = createRange ds kind vpas vpaClient st1
      in (ev1 @ ev2, st2))"

text \<open>
  The closure of the delete loop for one kind. Go's \<open>&&\<close> evaluates
  \<open>v.Spec.TargetRef.Kind\<close> only when name and namespace are equal; with a nil
  \<open>TargetRef\<close> that read panics.
\<close>

definition kindMatch ::
  "nat \<Rightarrow> string \<Rightarrow> VerticalPodAutoscaler \<Rightarrow> vpaTarget \<Rightarrow> panic + bool" where
  "kindMatch line kind v d =
     (if Name d = Name v \<and> Namespace d = Namespace v
      then (case TargetRef (Spec v) of
              None \<Rightarrow> Inl (NilPointerDereference line)
            | Some r \<Rightarrow> Inr (Kind r = kind))
      else Inr False)"

text \<open>
  The loop over the snapshot \<open>vpas\<close>. The result is \<open>Inl\<close> for a panic, \<open>Inr (Some e)\<close>
  when a delete call failed and its error is returned, \<open>Inr None\<close> when the loop ran to
  its end. The log line after a successful delete reads \<open>v.Spec.TargetRef.Kind\<close> again.
\<close>

fun deleteRange ::
  "VerticalPodAutoscaler list \<Rightarrow> vpaTarget list \<Rightarrow> vpaTarget list \<Rightarrow> vpaTarget list
     \<Rightarrow> VPAClient \<Rightarrow> VerticalPodAutoscaler list
     \<Rightarrow> (panic + string option) \<times> event list \<times> VerticalPodAutoscaler list" where
  "deleteRange [] deployments statefulSets daemonSets vpaClient st = (Inr None, [], st)"
| "deleteRange (v # vs) deployments statefulSets daemonSets vpaClient st =
     (case ContainsFuncE deployments (kindMatch 164 ''Deployment'' v) of
        Inl p \<Rightarrow> (Inl p, [], st)
      | Inr b1 \<Rightarrow>
     if b1 then deleteRange vs deployments statefulSets daemonSets vpaClient st else
     (case ContainsFuncE statefulSets (kindMatch 167 ''StatefulSet'' v) of
        Inl p \<Rightarrow> (Inl p, [], st)
      | Inr b2 \<Rightarrow>
     if b2 then deleteRange vs deployments statefulSets daemonSets vpaClient st else
     (case ContainsFuncE daemonSets (kindMatch 170 ''DaemonSet'' v) of
        Inl p \<Rightarrow> (Inl p, [], st)
      | Inr b3 \<Rightarrow>
     if b3 then deleteRange vs deployments statefulSets daemonSets vpaClient st else
     if prefix ''goldilocks'' (Name v)
     then deleteRange vs deployments statefulSets daemonSets vpaClient st
     else
       (case DeleteVPA vpaClient (Namespace v) (Name v) st of
          (Some e, st') \<Rightarrow> (Inr (Some e), [Delete (Namespace v) (Name v)], st')
        | (None, st') \<Rightarrow>
            (case TargetRef (Spec v) of
               None \<Rightarrow> (Inl (NilPointerDereference 180), [Delete (Namespace v) (Name v)], st')
             | Some r \<Rightarrow>
                 let (res, ev, st'') =
                       deleteRange vs deployments statefulSets daemonSets vpaClient st'
                 in (res,
                     [Delete (Namespace v) (Name v),
                      Slog Info ''deleted''
                        [(''vpa'', Name v), (''namespace'', Namespace v), (''kind'', Kind r)]]
                     @ ev, st''))))))"

text \<open>
  \<open>createVPAs\<close>, one cycle: the snapshot of the VerticalPodAutoscalers is taken first; each
  kind of workload is listed and its missing objects are created before the next kind is
  listed; the delete loop comes last. A failed list call returns its wrapped error at once.
\<close>

definition createVPAs ::
  "VPAClient \<Rightarrow> K8sClient \<Rightarrow> VerticalPodAutoscaler list
     \<Rightarrow> (panic + string option) \<times> event list \<times> VerticalPodAutoscaler list" where
  "createVPAs vpaClient k8sClient st =
     (let ev0 = [Slog Info ''scanning for changes'' []] in
      case ListVPAs vpaClient st of
        Inl err \<Rightarrow>
          (Inr (Some (''failed to fetch VerticalPodAutoscalers: '' @ err)), ev0, st)
      | Inr vpas \<Rightarrow>
     (case Deployments k8sClient of
        Inl err \<Rightarrow> (Inr (Some (''failed to fetch Deployments: '' @ err)), ev0, st)
      | Inr deployments \<Rightarrow>
     let (ev1, st1) = createRange deployments ''Deployment'' vpas vpaClient st in
     (case StatefulSets k8sClient of
        Inl err \<Rightarrow> (Inr (Some (''failed to fetch StatefulSets: '' @ err)), ev0 @ ev1, st1)
      | Inr statefulSets \<Rightarrow>
     let (ev2, st2) = createRange statefulSets ''StatefulSet'' vpas vpaClient st1 in
     (case DaemonSets k8sClient of
        Inl err \<Rightarrow>
          (Inr (Some (''failed to fetch DaemonSets: '' @ err)), ev0 @ ev1 @ ev2, st2)
      | Inr daemonSets \<Rightarrow>
     let (ev3, st3) = createRange daemonSets ''DaemonSet'' vpas vpaClient st2;
         (res, ev4, st4) = deleteRange vpas deployments statefulSets daemonSets vpaClient st3
     in (case res of
           Inr None \<Rightarrow>
             (Inr None,
              ev0 @ ev1 @ ev2 @ ev3 @ ev4 @ [Slog Info ''completed scanning for changes'' []],
              st4)
         | _ \<Rightarrow> (res, ev0 @ ev1 @ ev2 @ ev3 @ ev4, st4))))))"

text \<open>
  One pass of the endless loop of \<open>main\<close> (the sleep left out): an error returned by the
  cycle is logged and the loop goes on (\<open>Inr ()\<close>); a panic ends the process (\<open>Inl\<close>).
\<close>

definition mainIteration ::
  "VPAClient \<Rightarrow> K8sClient \<Rightarrow> VerticalPodAutoscaler list
     \<Rightarrow> (panic + unit) \<times> event list \<times> VerticalPodAutoscaler list" where
  "mainIteration vpaClient k8sClient st =
     (case createVPAs vpaClient k8sClient st of
        (Inl p, ev, st') \<Rightarrow> (Inl p, ev, st')
      | (Inr None, ev, st') \<Rightarrow> (Inr (), ev, st')
      | (Inr (Some e), ev, st') \<Rightarrow>
          (Inr (), ev @ [Slog Error ''failed creating vpas'' [(''error'', e)]], st'))"

section \<open>What a cycle is observed to do, and the plan of the specification\<close>

text \<open>The create calls and the delete calls of a run, in the order they were made.\<close>

fun createCalls :: "event list \<Rightarrow> (string \<times> VerticalPodAutoscaler) list" where
  "createCalls [] = []"
| "createCalls (Create ns obj # es) = (ns, obj) # createCalls es"
| "createCalls (e # es) = createCalls es"

fun deleteCalls :: "event list \<Rightarrow> (string \<times> string) list" where
  "deleteCalls [] = []"
| "deleteCalls (Delete ns n # es) = (ns, n) # deleteCalls es"
| "deleteCalls (e # es) = deleteCalls es"


text \<open>Namespace and name: the identity of an object in the cluster.\<close>

definition objKey :: "'a ObjectMeta_scheme \<Rightarrow> string \<times> string" where
  "objKey x = (Namespace x, Name x)"

text \<open>The lists a client returned; a failed list call contributes nothing.\<close>

fun items :: "string + 'a list \<Rightarrow> 'a list" where
  "items (Inl e) = []"
| "items (Inr xs) = xs"

definition workloads :: "K8sClient \<Rightarrow> (string \<times> vpaTarget) list" where
  "workloads k =
     map (Pair ''Deployment'') (items (Deployments k))
     @ map (Pair ''StatefulSet'') (items (StatefulSets k))
     @ map (Pair ''DaemonSet'') (items (DaemonSets k))"

text \<open>
  The matching rules in the words of the specification. Create side: a workload has a
  VerticalPodAutoscaler when one of the same name and namespace exists. Delete side: an
  object has a workload of a kind when a workload of that kind has its name and namespace
  and its target reference records that kind; an object with no target reference has no
  target kind. An object is orphaned when it has no workload of any of the three kinds and
  its name does not start with \<open>goldilocks\<close>.
\<close>

definition hasVPA :: "VerticalPodAutoscaler list \<Rightarrow> vpaTarget \<Rightarrow> bool" where
  "hasVPA vpas w = (\<exists>v \<in> set vpas. Name v = Name w \<and> Namespace v = Namespace w)"

definition targetKind :: "VerticalPodAutoscaler \<Rightarrow> string option" where
  "targetKind v = map_option Kind (TargetRef (Spec v))"

definition hasWorkload :: "string \<Rightarrow> vpaTarget list \<Rightarrow> VerticalPodAutoscaler \<Rightarrow> bool" where
  "hasWorkload kind ws v =
     (\<exists>w \<in> set ws. Name w = Name v \<and> Namespace w = Namespace v \<and> targetKind v = Some kind)"

definition orphaned ::
  "vpaTarget list \<Rightarrow> vpaTarget list \<Rightarrow> vpaTarget list \<Rightarrow> VerticalPodAutoscaler \<Rightarrow> bool" where
  "orphaned ds ss dss v =
     (\<not> (hasWorkload ''Deployment'' ds v \<or> hasWorkload ''StatefulSet'' ss v
          \<or> hasWorkload ''DaemonSet'' dss v)
      \<and> \<not> prefix ''goldilocks'' (Name v))"

text \<open>
  The plan of the specification: the create actions of one kind (namespace and managed
  object of every workload without a VerticalPodAutoscaler, in catalog order) and the
  delete actions (namespace and name of every orphaned object, in catalog order).
\<close>

definition toCreate ::
  "string \<Rightarrow> vpaTarget list \<Rightarrow> VerticalPodAutoscaler list
     \<Rightarrow> (string \<times> VerticalPodAutoscaler) list" where
  "toCreate kind ws vpas =
     map (\<lambda>w. (Namespace w, managedVPA ''apps/v1'' kind w)) (filter (\<lambda>w. \<not> hasVPA vpas w) ws)"

definition toDelete ::
  "vpaTarget list \<Rightarrow> vpaTarget list \<Rightarrow> vpaTarget list \<Rightarrow> VerticalPodAutoscaler list
     \<Rightarrow> (string \<times> string) list" where
  "toDelete ds ss dss vpas = map objKey (filter (orphaned ds ss dss) vpas)"

text \<open>
  The three guards and the prefix test of the delete loop, read as one decision: whether
  the loop keeps the object (\<open>continue\<close>), or panics while deciding.
\<close>

definition keeps ::
  "vpaTarget list \<Rightarrow> vpaTarget list \<Rightarrow> vpaTarget list \<Rightarrow> VerticalPodAutoscaler
     \<Rightarrow> panic + bool" where
  "keeps ds ss dss v =
     (case ContainsFuncE ds (kindMatch 164 ''Deployment'' v) of
        Inl p \<Rightarrow> Inl p
      | Inr b1 \<Rightarrow> if b1 then Inr True else
     (case ContainsFuncE ss (kindMatch 167 ''StatefulSet'' v) of
        Inl p \<Rightarrow> Inl p
      | Inr b2 \<Rightarrow> if b2 then Inr True else
     (case ContainsFuncE dss (kindMatch 170 ''DaemonSet'' v) of
        Inl p \<Rightarrow> Inl p
      | Inr b3 \<Rightarrow> if b3 then Inr True else Inr (prefix ''goldilocks'' (Name v)))))"

text \<open>
  Modelled from the spec: the cluster API behind the clients is not code of this
  repository. The specification gives its contract: namespace and name identify an
  object, a create call fails with a conflict when the object exists, a delete call fails
  with not-found when it does not, and nothing else fails when nobody else changes the
  cluster.
\<close>

definition cluster :: VPAClient where
  "cluster =
     \<lparr>listErr = None,
      createErr = (\<lambda>st obj. if objKey obj \<in> objKey ` set st
                            then Some ''already exists'' else None),
      deleteErr = (\<lambda>st ns n. if (ns, n) \<in> objKey ` set st
                             then None else Some ''not found'')\<rparr>"

text \<open>Objects and clients for the concrete runs below.\<close>

definition target :: "string \<Rightarrow> string \<Rightarrow> vpaTarget" where
  "target n ns = \<lparr>Name = n, Namespace = ns\<rparr>"

definition k8s :: "vpaTarget list \<Rightarrow> vpaTarget list \<Rightarrow> vpaTarget list \<Rightarrow> K8sClient" where
  "k8s ds ss dss = \<lparr>Deployments = Inr ds, StatefulSets = Inr ss, DaemonSets = Inr dss\<rparr>"

definition reliable :: VPAClient where
  "reliable = \<lparr>listErr = None, createErr = (\<lambda>st obj. None), deleteErr = (\<lambda>st ns n. None)\<rparr>"

definition exK8s :: K8sClient where
  "exK8s = k8s [target ''api'' ''ns'', target ''web'' ''default''] [target ''db'' ''default''] []"

definition exVPAs :: "VerticalPodAutoscaler list" where
  "exVPAs = [managedVPA ''apps/v1'' ''StatefulSet'' (target ''api'' ''ns''),
             managedVPA ''apps/v1'' ''Deployment'' (target ''old'' ''default'')]"

text \<open>
  The managed object in the words of the specification: name and namespace of the
  workload, a target reference to it (API version "apps/v1", its kind, its name) and the
  update mode "Off".
\<close>

definition isManagedVPASpec :: "string \<Rightarrow> vpaTarget \<Rightarrow> VerticalPodAutoscaler \<Rightarrow> bool" where
  "isManagedVPASpec kind w obj \<longleftrightarrow>
     Name obj = Name w \<and> Namespace obj = Namespace w
     \<and> Spec obj = \<lparr>TargetRef = Some \<lparr>APIVersion = ''apps/v1'', Kind = kind, RefName = Name w\<rparr>,
                   UpdatePolicy = Some \<lparr>UpdateMode = Some ''Off''\<rparr>\<rparr>"

definition exNoRef :: VerticalPodAutoscaler where
  "exNoRef = \<lparr>Name = ''api'', Namespace = ''ns'',
               Spec = \<lparr>TargetRef = None, UpdatePolicy = None\<rparr>\<rparr>"

definition exGoldilocks :: "VerticalPodAutoscaler list" where
  "exGoldilocks = [managedVPA ''apps/v1'' ''Deployment'' (target ''goldilocks-api'' ''ns''),
                   managedVPA ''apps/v1'' ''Deployment'' (target ''old'' ''ns'')]"

text \<open>
  Two objects that agree on what the specification lets a decision depend on: their own
  name, their namespace and the kind of their target reference. The name in the target
  reference is free.
\<close>

definition sameDecisionKey :: "VerticalPodAutoscaler \<Rightarrow> VerticalPodAutoscaler \<Rightarrow> bool" where
  "sameDecisionKey v v' \<longleftrightarrow>
     Name v = Name v' \<and> Namespace v = Namespace v' \<and> targetKind v = targetKind v'"

definition exRetargeted :: "VerticalPodAutoscaler list" where
  "exRetargeted =
     [\<lparr>Name = ''api'', Namespace = ''ns'',
       Spec = \<lparr>TargetRef = Some \<lparr>APIVersion = ''apps/v1'', Kind = ''StatefulSet'',
                                 RefName = ''web''\<rparr>,
               UpdatePolicy = None\<rparr>\<rparr>,
      \<lparr>Name = ''old'', Namespace = ''default'',
       Spec = \<lparr>TargetRef = Some \<lparr>APIVersion = ''v1'', Kind = ''Deployment'',
                                 RefName = ''db''\<rparr>,
               UpdatePolicy = None\<rparr>\<rparr>]"

definition exMismatch :: "VerticalPodAutoscaler list" where
  "exMismatch = [managedVPA ''apps/v1'' ''StatefulSet'' (target ''api'' ''ns'')]"

definition exStore1 :: "VerticalPodAutoscaler list" where
  "exStore1 = snd (snd (createVPAs cluster exK8s exVPAs))"

definition exStore2 :: "VerticalPodAutoscaler list" where
  "exStore2 = snd (snd (createVPAs cluster exK8s exStore1))"


definition denyDelete :: "string \<Rightarrow> VPAClient" where
  "denyDelete n =
     \<lparr>listErr = None,
      createErr = (\<lambda>st obj. None),
      deleteErr = (\<lambda>st ns m. if m = n then Some ''forbidden'' else None)\<rparr>"



fun applyDeletes ::
  "VPAClient \<Rightarrow> (string \<times> string) list \<Rightarrow> VerticalPodAutoscaler list
     \<Rightarrow> string option \<times> (string \<times> string) list \<times> VerticalPodAutoscaler list" where
  "applyDeletes c [] s = (None, [], s)"
| "applyDeletes c ((ns, n) # as) s =
     (case DeleteVPA c ns n s of
        (Some e, s1) \<Rightarrow> (Some e, [(ns, n)], s1)
      | (None, s1) \<Rightarrow>
          (let (r, done, s2) = applyDeletes c as s1 in (r, (ns, n) # done, s2)))"





section \<open>Facts about the parts of a cycle\<close>

lemma createCalls_append: "createCalls (xs @ ys) = createCalls xs @ createCalls ys"
  by (induction xs rule: createCalls.induct) simp_all

lemma deleteCalls_append: "deleteCalls (xs @ ys) = deleteCalls xs @ deleteCalls ys"
  by (induction xs rule: deleteCalls.induct) simp_all

lemma ContainsFunc_iff: "ContainsFunc xs f = (\<exists>x \<in> set xs. f x)"
  by (induction xs) auto

lemma ContainsFuncE_kindMatch:
  "ContainsFuncE ws (kindMatch line kind v) =
     (if \<exists>w \<in> set ws. Name w = Name v \<and> Namespace w = Namespace v
      then (case TargetRef (Spec v) of
              None \<Rightarrow> Inl (NilPointerDereference line)
            | Some r \<Rightarrow> Inr (Kind r = kind))
      else Inr False)"
  by (induction ws) (auto simp: kindMatch_def split: option.splits)

lemma ContainsFuncE_hasWorkload:
  "ContainsFuncE ws (kindMatch line kind v) = Inr b \<Longrightarrow> b = hasWorkload kind ws v"
  by (auto simp: ContainsFuncE_kindMatch hasWorkload_def targetKind_def split: if_splits option.splits)

lemma createVPA_events:
  "fst (createVPA t api kind vpas c st) =
     (if hasVPA vpas t then []
      else [Slog Info ''building VPA'' [(''name'', Name t), (''namespace'', Namespace t)],
            Create (Namespace t) (managedVPA api kind t)]
           @ (case createErr c st (managedVPA api kind t) of
                Some e \<Rightarrow> [Slog Warn ''failed to create vpa''
                             [(''error'', e), (''name'', Name t), (''namespace'', Namespace t)],
                           Slog Info ''created'' [(''vpa'', []), (''namespace'', [])]]
              | None \<Rightarrow> [Slog Info ''created'' [(''vpa'', Name t), (''namespace'', Namespace t)]]))"
  by (auto simp: createVPA_def ContainsFunc_iff hasVPA_def CreateVPA_def emptyVPA_def managedVPA_def Let_def split: option.splits)

lemma createVPA_createCalls:
  "createCalls (fst (createVPA t api kind vpas c st)) =
     (if hasVPA vpas t then [] else [(Namespace t, managedVPA api kind t)])"
  by (simp add: createVPA_events split: option.splits)

lemma createVPA_deleteCalls: "deleteCalls (fst (createVPA t api kind vpas c st)) = []"
  by (simp add: createVPA_events split: option.splits)

lemma createRange_createCalls:
  "createCalls (fst (createRange ws kind vpas c st)) = toCreate kind ws vpas"
proof (induction ws arbitrary: st)
  case Nil
  show ?case by (simp add: toCreate_def)
next
  case (Cons w ws)
  obtain ev1 st1 where a: "createVPA w ''apps/v1'' kind vpas c st = (ev1, st1)"
    by (cases "createVPA w ''apps/v1'' kind vpas c st")
  obtain ev2 st2 where b: "createRange ws kind vpas c st1 = (ev2, st2)"
    by (cases "createRange ws kind vpas c st1")
  have "createCalls ev1 = (if hasVPA vpas w then [] else [(Namespace w, managedVPA ''apps/v1'' kind w)])"
    using createVPA_createCalls [of w "''apps/v1''" kind vpas c st] a by simp
  moreover have "createCalls ev2 = toCreate kind ws vpas"
    using Cons.IH [of st1] b by simp
  ultimately show ?case
    using a b by (simp add: createCalls_append toCreate_def)
qed

lemma createRange_deleteCalls:
  "deleteCalls (fst (createRange ws kind vpas c st)) = []"
proof (induction ws arbitrary: st)
  case Nil
  show ?case by simp
next
  case (Cons w ws)
  obtain ev1 st1 where a: "createVPA w ''apps/v1'' kind vpas c st = (ev1, st1)"
    by (cases "createVPA w ''apps/v1'' kind vpas c st")
  obtain ev2 st2 where b: "createRange ws kind vpas c st1 = (ev2, st2)"
    by (cases "createRange ws kind vpas c st1")
  have "deleteCalls ev1 = []"
    using createVPA_deleteCalls [of w "''apps/v1''" kind vpas c st] a by simp
  moreover have "deleteCalls ev2 = []"
    using Cons.IH [of st1] b by simp
  ultimately show ?case
    using a b by (simp add: deleteCalls_append)
qed

lemma deleteRange_Cons:
  "deleteRange (v # vs) ds ss dss c st =
     (case keeps ds ss dss v of
        Inl p \<Rightarrow> (Inl p, [], st)
      | Inr b \<Rightarrow>
          if b then deleteRange vs ds ss dss c st
          else
            (case DeleteVPA c (Namespace v) (Name v) st of
               (Some e, st') \<Rightarrow> (Inr (Some e), [Delete (Namespace v) (Name v)], st')
             | (None, st') \<Rightarrow>
                 (case TargetRef (Spec v) of
                    None \<Rightarrow> (Inl (NilPointerDereference 180), [Delete (Namespace v) (Name v)], st')
                  | Some r \<Rightarrow>
                      let (res, ev, st'') = deleteRange vs ds ss dss c st'
                      in (res,
                          [Delete (Namespace v) (Name v),
                           Slog Info ''deleted''
                             [(''vpa'', Name v), (''namespace'', Namespace v), (''kind'', Kind r)]]
                          @ ev, st''))))"
  by (simp add: keeps_def split: sum.splits)

lemma keeps_orphaned: "keeps ds ss dss v = Inr b \<Longrightarrow> b = (\<not> orphaned ds ss dss v)"
  unfolding keeps_def orphaned_def
  by (auto split: sum.splits if_splits dest!: ContainsFuncE_hasWorkload)

lemma keeps_total:
  "TargetRef (Spec v) \<noteq> None \<Longrightarrow> keeps ds ss dss v = Inr (\<not> orphaned ds ss dss v)"
  unfolding keeps_def orphaned_def hasWorkload_def targetKind_def
  by (auto simp: ContainsFuncE_kindMatch)

lemma deleteRange_createCalls:
  "deleteRange vs ds ss dss c st = (res, ev, st') \<Longrightarrow> createCalls ev = []"
proof (induction vs arbitrary: st res ev st')
  case Nil
  then show ?case by simp
next
  case (Cons v vs)
  show ?case
    using Cons.prems Cons.IH
    by (auto simp: deleteRange_Cons simp del: deleteRange.simps
        split: sum.splits if_splits prod.splits option.splits)
qed

lemma deleteRange_prefix:
  "deleteRange vs ds ss dss c st = (res, ev, st') \<Longrightarrow>
     prefix (deleteCalls ev) (toDelete ds ss dss vs)"
proof (induction vs arbitrary: st res ev st')
  case Nil
  then show ?case by simp
next
  case (Cons v vs)
  show ?case
    using Cons.prems Cons.IH
    by (auto simp: deleteRange_Cons toDelete_def objKey_def simp del: deleteRange.simps
        split: sum.splits if_splits prod.splits option.splits dest: keeps_orphaned)
qed

lemma deleteRange_completed:
  "deleteRange vs ds ss dss c st = (Inr None, ev, st') \<Longrightarrow>
     deleteCalls ev = toDelete ds ss dss vs"
proof (induction vs arbitrary: st ev st')
  case Nil
  then show ?case by (simp add: toDelete_def)
next
  case (Cons v vs)
  show ?case
    using Cons.prems Cons.IH
    by (auto simp: deleteRange_Cons toDelete_def objKey_def simp del: deleteRange.simps
        split: sum.splits if_splits prod.splits option.splits dest: keeps_orphaned)
qed

lemma hasVPA_objKey: "hasVPA vpas w = (objKey w \<in> objKey ` set vpas)"
  by (simp add: hasVPA_def objKey_def image_iff) metis

lemma objKey_managedVPA [simp]: "objKey (managedVPA api kind w) = objKey w"
  by (simp add: objKey_def managedVPA_def)

lemma managedVPA_not_orphaned:
  "w \<in> set ws \<Longrightarrow> hasWorkload kind ws (managedVPA api kind w)"
  by (auto simp: hasWorkload_def managedVPA_def targetKind_def)

lemma createRange_Cons:
  "createRange (w # ws) kind vpas c st = (ev, st') \<Longrightarrow>
     \<exists>ev1 st1 ev2. createVPA w ''apps/v1'' kind vpas c st = (ev1, st1)
        \<and> createRange ws kind vpas c st1 = (ev2, st') \<and> ev = ev1 @ ev2"
  by (auto split: prod.splits)

lemma createVPA_store:
  "createVPA t api kind vpas c st = (ev, st') \<Longrightarrow>
     st' = st \<or> (\<not> hasVPA vpas t \<and> st' = st @ [managedVPA api kind t])"
  by (auto simp: createVPA_def ContainsFunc_iff hasVPA_def CreateVPA_def Let_def
      split: option.splits if_splits)

lemma createRange_mono:
  "createRange ws kind vpas c st = (ev, st') \<Longrightarrow> set st \<subseteq> set st'"
proof (induction ws arbitrary: st ev)
  case Nil
  then show ?case by simp
next
  case (Cons w ws)
  from createRange_Cons [OF Cons.prems] obtain ev1 st1 ev2 where
    a: "createVPA w ''apps/v1'' kind vpas c st = (ev1, st1)"
    and b: "createRange ws kind vpas c st1 = (ev2, st')" by blast
  have "set st \<subseteq> set st1" using createVPA_store [OF a] by auto
  moreover have "set st1 \<subseteq> set st'" using Cons.IH [OF b] .
  ultimately show ?case by blast
qed

lemma createRange_new:
  "createRange ws kind vpas c st = (ev, st') \<Longrightarrow> x \<in> set st' \<Longrightarrow>
     x \<in> set st \<or> (\<exists>w \<in> set ws. \<not> hasVPA vpas w \<and> x = managedVPA ''apps/v1'' kind w)"
proof (induction ws arbitrary: st ev)
  case Nil
  then show ?case by simp
next
  case (Cons w ws)
  from createRange_Cons [OF Cons.prems(1)] obtain ev1 st1 ev2 where
    a: "createVPA w ''apps/v1'' kind vpas c st = (ev1, st1)"
    and b: "createRange ws kind vpas c st1 = (ev2, st')" by blast
  from Cons.IH [OF b Cons.prems(2)]
  have "x \<in> set st1 \<or> (\<exists>w \<in> set ws. \<not> hasVPA vpas w \<and> x = managedVPA ''apps/v1'' kind w)" .
  moreover have "x \<in> set st1 \<Longrightarrow>
      x \<in> set st \<or> (\<not> hasVPA vpas w \<and> x = managedVPA ''apps/v1'' kind w)"
    using createVPA_store [OF a] by auto
  ultimately show ?case by auto
qed

lemma createVPA_cluster:
  "createVPA t api kind vpas cluster st = (ev, st') \<Longrightarrow>
     st' = (if hasVPA vpas t \<or> objKey t \<in> objKey ` set st then st
            else st @ [managedVPA api kind t])"
  by (auto simp: createVPA_def ContainsFunc_iff hasVPA_def CreateVPA_def cluster_def Let_def
      split: option.splits if_splits)

lemma createRange_cluster_distinct:
  "createRange ws kind vpas cluster st = (ev, st') \<Longrightarrow> distinct (map objKey st) \<Longrightarrow>
     distinct (map objKey st')"
proof (induction ws arbitrary: st ev)
  case Nil
  then show ?case by simp
next
  case (Cons w ws)
  from createRange_Cons [OF Cons.prems(1)] obtain ev1 st1 ev2 where
    a: "createVPA w ''apps/v1'' kind vpas cluster st = (ev1, st1)"
    and b: "createRange ws kind vpas cluster st1 = (ev2, st')" by blast
  have "distinct (map objKey st1)"
    using createVPA_cluster [OF a] Cons.prems(2) by (auto split: if_splits)
  then show ?case using Cons.IH [OF b] by blast
qed

lemma createRange_cluster_covers:
  "createRange ws kind vpas cluster st = (ev, st') \<Longrightarrow> w \<in> set ws \<Longrightarrow>
     \<not> hasVPA vpas w \<Longrightarrow> objKey w \<in> objKey ` set st'"
proof (induction ws arbitrary: st ev)
  case Nil
  then show ?case by simp
next
  case (Cons u ws)
  from createRange_Cons [OF Cons.prems(1)] obtain ev1 st1 ev2 where
    a: "createVPA u ''apps/v1'' kind vpas cluster st = (ev1, st1)"
    and b: "createRange ws kind vpas cluster st1 = (ev2, st')" by blast
  show ?case
  proof (cases "w = u")
    case True
    have "objKey w \<in> objKey ` set st1"
      using createVPA_cluster [OF a] Cons.prems(3) True by (auto split: if_splits)
    then show ?thesis using createRange_mono [OF b] by blast
  next
    case False
    then have "w \<in> set ws" using Cons.prems(2) by simp
    then show ?thesis using Cons.IH [OF b _ Cons.prems(3)] by blast
  qed
qed

lemma createRange_cluster_idle:
  "createRange ws kind vpas cluster st = (ev, st') \<Longrightarrow> \<forall>w \<in> set ws. hasVPA vpas w \<Longrightarrow> st' = st"
proof (induction ws arbitrary: st ev)
  case Nil
  then show ?case by simp
next
  case (Cons u ws)
  from createRange_Cons [OF Cons.prems(1)] obtain ev1 st1 ev2 where
    a: "createVPA u ''apps/v1'' kind vpas cluster st = (ev1, st1)"
    and b: "createRange ws kind vpas cluster st1 = (ev2, st')" by blast
  have "st1 = st" using createVPA_cluster [OF a] Cons.prems(2) by simp
  moreover have "st' = st1" using Cons.IH [OF b] Cons.prems(2) by simp
  ultimately show ?case by simp
qed

lemma deleteRange_cluster:
  "distinct (map objKey vs) \<Longrightarrow> objKey ` set vs \<subseteq> objKey ` set st \<Longrightarrow>
   \<forall>v \<in> set vs. TargetRef (Spec v) \<noteq> None \<Longrightarrow>
   \<exists>ev. deleteRange vs ds ss dss cluster st =
          (Inr None, ev, filter (\<lambda>x. objKey x \<notin> set (toDelete ds ss dss vs)) st)"
proof (induction vs arbitrary: st)
  case Nil
  then show ?case by (simp add: toDelete_def)
next
  case (Cons v vs)
  have k: "keeps ds ss dss v = Inr (\<not> orphaned ds ss dss v)"
    using Cons.prems(3) by (simp add: keeps_total)
  have d: "distinct (map objKey vs)" and t: "\<forall>v \<in> set vs. TargetRef (Spec v) \<noteq> None"
    using Cons.prems by simp_all
  show ?case
  proof (cases "orphaned ds ss dss v")
    case False
    have "objKey ` set vs \<subseteq> objKey ` set st" using Cons.prems(2) by auto
    from Cons.IH [OF d this t] show ?thesis
      using k False by (simp add: deleteRange_Cons toDelete_def del: deleteRange.simps)
  next
    case True
    let ?st1 = "filter (\<lambda>x. \<not> (Namespace x = Namespace v \<and> Name x = Name v)) st"
    have in_st: "(Namespace v, Name v) \<in> objKey ` set st"
      using Cons.prems(2) by (auto simp: objKey_def)
    have del: "DeleteVPA cluster (Namespace v) (Name v) st = (None, ?st1)"
      using in_st by (simp add: DeleteVPA_def cluster_def)
    obtain r where r: "TargetRef (Spec v) = Some r" using Cons.prems(3) by auto
    have st1: "?st1 = filter (\<lambda>x. objKey x \<noteq> objKey v) st"
      by (rule filter_cong) (auto simp: objKey_def)
    have sub: "objKey ` set vs \<subseteq> objKey ` set ?st1"
    proof
      fix kk assume kk: "kk \<in> objKey ` set vs"
      have "objKey v \<notin> objKey ` set vs" using Cons.prems(1) by simp
      then have "kk \<noteq> objKey v" using kk by blast
      moreover have "kk \<in> objKey ` set st" using kk Cons.prems(2) by auto
      ultimately show "kk \<in> objKey ` set ?st1" unfolding st1 by auto
    qed
    from Cons.IH [OF d sub t] obtain ev where
      ev: "deleteRange vs ds ss dss cluster ?st1 =
             (Inr None, ev, filter (\<lambda>x. objKey x \<notin> set (toDelete ds ss dss vs)) ?st1)" by blast
    have fin: "filter (\<lambda>x. objKey x \<notin> set (toDelete ds ss dss vs)) ?st1
               = filter (\<lambda>x. objKey x \<notin> set (toDelete ds ss dss (v # vs))) st"
      unfolding st1 using True by (auto simp: toDelete_def objKey_def intro!: filter_cong)
    show ?thesis
      using k True del r ev fin
      by (simp add: deleteRange_Cons del: deleteRange.simps)
  qed
qed

lemma Create_in_events: "Create ns obj \<in> set ev \<longleftrightarrow> (ns, obj) \<in> set (createCalls ev)"
  by (induction ev rule: createCalls.induct) auto

lemma Delete_in_events: "Delete ns n \<in> set ev \<longleftrightarrow> (ns, n) \<in> set (deleteCalls ev)"
  by (induction ev rule: deleteCalls.induct) auto

lemma createRange_calls:
  assumes "createRange ws kind vpas c st = (ev, st')"
  shows "createCalls ev = toCreate kind ws vpas" and "deleteCalls ev = []"
  using createRange_createCalls [of ws kind vpas c st]
    createRange_deleteCalls [of ws kind vpas c st] assms by simp_all

lemma createVPAs_fetched:
  assumes "listErr c = None" "Deployments k = Inr ds" "StatefulSets k = Inr ss"
    "DaemonSets k = Inr dss"
  shows "\<exists>ev1 st1 ev2 st2 ev3 st3 res ev4 st4.
     createRange ds ''Deployment'' st c st = (ev1, st1)
     \<and> createRange ss ''StatefulSet'' st c st1 = (ev2, st2)
     \<and> createRange dss ''DaemonSet'' st c st2 = (ev3, st3)
     \<and> deleteRange st ds ss dss c st3 = (res, ev4, st4)
     \<and> createVPAs c k st =
         (res,
          [Slog Info ''scanning for changes'' []] @ ev1 @ ev2 @ ev3 @ ev4
          @ (if res = Inr None then [Slog Info ''completed scanning for changes'' []] else []),
          st4)"
proof -
  obtain ev1 st1 where a: "createRange ds ''Deployment'' st c st = (ev1, st1)"
    by (cases "createRange ds ''Deployment'' st c st")
  obtain ev2 st2 where b: "createRange ss ''StatefulSet'' st c st1 = (ev2, st2)"
    by (cases "createRange ss ''StatefulSet'' st c st1")
  obtain ev3 st3 where d: "createRange dss ''DaemonSet'' st c st2 = (ev3, st3)"
    by (cases "createRange dss ''DaemonSet'' st c st2")
  obtain res ev4 st4 where e: "deleteRange st ds ss dss c st3 = (res, ev4, st4)"
    by (cases "deleteRange st ds ss dss c st3")
  have "createVPAs c k st =
         (res,
          [Slog Info ''scanning for changes'' []] @ ev1 @ ev2 @ ev3 @ ev4
          @ (if res = Inr None then [Slog Info ''completed scanning for changes'' []] else []),
          st4)"
    using assms a b d e
    by (auto simp: createVPAs_def ListVPAs_def Let_def split: sum.splits option.splits)
  with a b d e show ?thesis by blast
qed

lemma createVPAs_calls:
  assumes f: "listErr c = None" "Deployments k = Inr ds" "StatefulSets k = Inr ss"
    "DaemonSets k = Inr dss"
    and run: "createVPAs c k st = (res, ev, st')"
  shows "createCalls ev =
           toCreate ''Deployment'' ds st @ toCreate ''StatefulSet'' ss st
           @ toCreate ''DaemonSet'' dss st"
    and "prefix (deleteCalls ev) (toDelete ds ss dss st)"
    and "res = Inr None \<Longrightarrow> deleteCalls ev = toDelete ds ss dss st"
proof -
  from createVPAs_fetched [OF f, of st] obtain ev1 st1 ev2 st2 ev3 st3 res' ev4 st4 where
    a: "createRange ds ''Deployment'' st c st = (ev1, st1)"
    and b: "createRange ss ''StatefulSet'' st c st1 = (ev2, st2)"
    and d: "createRange dss ''DaemonSet'' st c st2 = (ev3, st3)"
    and e: "deleteRange st ds ss dss c st3 = (res', ev4, st4)"
    and r: "createVPAs c k st =
         (res',
          [Slog Info ''scanning for changes'' []] @ ev1 @ ev2 @ ev3 @ ev4
          @ (if res' = Inr None then [Slog Info ''completed scanning for changes'' []] else []),
          st4)" by blast
  have res: "res' = res"
    and ev: "ev = [Slog Info ''scanning for changes'' []] @ ev1 @ ev2 @ ev3 @ ev4
          @ (if res = Inr None then [Slog Info ''completed scanning for changes'' []] else [])"
    using r run by simp_all
  show "createCalls ev =
           toCreate ''Deployment'' ds st @ toCreate ''StatefulSet'' ss st
           @ toCreate ''DaemonSet'' dss st"
    unfolding ev
    by (simp add: createCalls_append createRange_calls [OF a] createRange_calls [OF b]
        createRange_calls [OF d] deleteRange_createCalls [OF e])
  have dc: "deleteCalls ev = deleteCalls ev4"
    unfolding ev
    by (simp add: deleteCalls_append createRange_calls [OF a] createRange_calls [OF b]
        createRange_calls [OF d])
  show "prefix (deleteCalls ev) (toDelete ds ss dss st)"
    unfolding dc by (rule deleteRange_prefix [OF e])
  show "deleteCalls ev = toDelete ds ss dss st" if "res = Inr None"
    unfolding dc using e res that by (simp add: deleteRange_completed)
qed

lemma DeleteVPA_store:
  "DeleteVPA c ns n st = (r, st') \<Longrightarrow>
     set st' \<subseteq> set st \<and> (\<forall>x \<in> set st. objKey x \<noteq> (ns, n) \<longrightarrow> x \<in> set st')"
  by (auto simp: DeleteVPA_def objKey_def split: option.splits)

lemma deleteRange_store:
  "deleteRange vs ds ss dss c st = (res, ev, st') \<Longrightarrow>
     set st' \<subseteq> set st \<and> (\<forall>x \<in> set st. objKey x \<notin> set (deleteCalls ev) \<longrightarrow> x \<in> set st')"
proof (induction vs arbitrary: st res ev st')
  case Nil
  then show ?case by simp
next
  case (Cons v vs)
  show ?case
  proof (cases "keeps ds ss dss v")
    case (Inl p)
    then show ?thesis using Cons.prems by (simp add: deleteRange_Cons del: deleteRange.simps)
  next
    case (Inr b)
    show ?thesis
    proof (cases b)
      case True
      then have "deleteRange vs ds ss dss c st = (res, ev, st')"
        using Cons.prems Inr by (simp add: deleteRange_Cons del: deleteRange.simps)
      then show ?thesis by (rule Cons.IH)
    next
      case False
      obtain r st1 where d: "DeleteVPA c (Namespace v) (Name v) st = (r, st1)"
        by (cases "DeleteVPA c (Namespace v) (Name v) st")
      note s1 = DeleteVPA_store [OF d]
      show ?thesis
      proof (cases r)
        case (Some e)
        then have "ev = [Delete (Namespace v) (Name v)]" "st' = st1"
          using Cons.prems Inr False d by (simp_all add: deleteRange_Cons del: deleteRange.simps)
        then show ?thesis using s1 by auto
      next
        case None
        show ?thesis
        proof (cases "TargetRef (Spec v)")
          case None': None
          have "ev = [Delete (Namespace v) (Name v)]" "st' = st1"
            using Cons.prems Inr False d None None'
            by (simp_all add: deleteRange_Cons del: deleteRange.simps)
          then show ?thesis using s1 by auto
        next
          case (Some r')
          obtain res2 ev2 st2 where e: "deleteRange vs ds ss dss c st1 = (res2, ev2, st2)"
            by (cases "deleteRange vs ds ss dss c st1")
          have ev: "ev = [Delete (Namespace v) (Name v),
                      Slog Info ''deleted''
                        [(''vpa'', Name v), (''namespace'', Namespace v), (''kind'', Kind r')]]
                     @ ev2" and st: "st' = st2"
            using Cons.prems Inr False d None Some e
            by (simp_all add: deleteRange_Cons del: deleteRange.simps)
          from Cons.IH [OF e] s1 show ?thesis unfolding ev st by auto
        qed
      qed
    qed
  qed
qed

lemma createVPAs_listErr:
  "listErr c = Some e \<Longrightarrow>
     createVPAs c k st =
       (Inr (Some (''failed to fetch VerticalPodAutoscalers: '' @ e)),
        [Slog Info ''scanning for changes'' []], st)"
  by (simp add: createVPAs_def ListVPAs_def)

lemma createVPAs_DeploymentsErr:
  "listErr c = None \<Longrightarrow> Deployments k = Inl e \<Longrightarrow>
     createVPAs c k st =
       (Inr (Some (''failed to fetch Deployments: '' @ e)),
        [Slog Info ''scanning for changes'' []], st)"
  by (simp add: createVPAs_def ListVPAs_def)

lemma createVPAs_StatefulSetsErr:
  "listErr c = None \<Longrightarrow> Deployments k = Inr ds \<Longrightarrow> StatefulSets k = Inl e \<Longrightarrow>
     createRange ds ''Deployment'' st c st = (ev1, st1) \<Longrightarrow>
     createVPAs c k st =
       (Inr (Some (''failed to fetch StatefulSets: '' @ e)),
        [Slog Info ''scanning for changes'' []] @ ev1, st1)"
  by (simp add: createVPAs_def ListVPAs_def)

lemma createVPAs_DaemonSetsErr:
  "listErr c = None \<Longrightarrow> Deployments k = Inr ds \<Longrightarrow> StatefulSets k = Inr ss \<Longrightarrow>
     DaemonSets k = Inl e \<Longrightarrow>
     createRange ds ''Deployment'' st c st = (ev1, st1) \<Longrightarrow>
     createRange ss ''StatefulSet'' st c st1 = (ev2, st2) \<Longrightarrow>
     createVPAs c k st =
       (Inr (Some (''failed to fetch DaemonSets: '' @ e)),
        [Slog Info ''scanning for changes'' []] @ ev1 @ ev2, st2)"
  by (simp add: createVPAs_def ListVPAs_def)

text \<open>Whatever the list calls answer: the calls of a cycle stay within the plan.\<close>

lemma createVPAs_any:
  assumes run: "createVPAs c k st = (res, ev, st')"
  shows "set (createCalls ev) \<subseteq>
           set (toCreate ''Deployment'' (items (Deployments k)) st
                @ toCreate ''StatefulSet'' (items (StatefulSets k)) st
                @ toCreate ''DaemonSet'' (items (DaemonSets k)) st)
         \<and> set (deleteCalls ev) \<subseteq>
             set (toDelete (items (Deployments k)) (items (StatefulSets k))
                    (items (DaemonSets k)) st)
         \<and> (\<forall>x \<in> set st. objKey x \<notin> set (deleteCalls ev) \<longrightarrow> x \<in> set st')
         \<and> (\<forall>x \<in> set st'. x \<in> set st \<or>
               (\<exists>(kind, w) \<in> set (workloads k).
                  \<not> hasVPA st w \<and> x = managedVPA ''apps/v1'' kind w))"
proof (cases "listErr c")
  case (Some e)
  have "ev = [Slog Info ''scanning for changes'' []]" "st' = st"
    using run createVPAs_listErr [OF Some, of k st] by simp_all
  then show ?thesis by simp
next
  case None
  show ?thesis
  proof (cases "Deployments k")
    case (Inl e)
    have "ev = [Slog Info ''scanning for changes'' []]" "st' = st"
      using run createVPAs_DeploymentsErr [OF None Inl, of st] by simp_all
    then show ?thesis by simp
  next
    case D: (Inr ds)
    obtain ev1 st1 where a: "createRange ds ''Deployment'' st c st = (ev1, st1)"
      by (cases "createRange ds ''Deployment'' st c st")
    note a1 = createRange_calls [OF a] createRange_mono [OF a]
    have n1: "\<forall>x \<in> set st1. x \<in> set st \<or>
               (\<exists>(kind, w) \<in> set (workloads k).
                  \<not> hasVPA st w \<and> x = managedVPA ''apps/v1'' kind w)"
      using createRange_new [OF a] D by (fastforce simp: workloads_def)
    show ?thesis
    proof (cases "StatefulSets k")
      case (Inl e)
      have "ev = [Slog Info ''scanning for changes'' []] @ ev1" "st' = st1"
        using run createVPAs_StatefulSetsErr [OF None D Inl a] by simp_all
      then show ?thesis using a1 n1 D by (auto simp: createCalls_append deleteCalls_append)
    next
      case S: (Inr ss)
      obtain ev2 st2 where b: "createRange ss ''StatefulSet'' st c st1 = (ev2, st2)"
        by (cases "createRange ss ''StatefulSet'' st c st1")
      note b1 = createRange_calls [OF b] createRange_mono [OF b]
      have n2: "\<forall>x \<in> set st2. x \<in> set st \<or>
               (\<exists>(kind, w) \<in> set (workloads k).
                  \<not> hasVPA st w \<and> x = managedVPA ''apps/v1'' kind w)"
        using createRange_new [OF b] n1 S by (fastforce simp: workloads_def)
      show ?thesis
      proof (cases "DaemonSets k")
        case (Inl e)
        have "ev = [Slog Info ''scanning for changes'' []] @ ev1 @ ev2" "st' = st2"
          using run createVPAs_DaemonSetsErr [OF None D S Inl a b] by simp_all
        then show ?thesis
          using a1 b1 n2 D S by (auto simp: createCalls_append deleteCalls_append)
      next
        case DS: (Inr dss)
        from createVPAs_fetched [OF None D S DS, of st] a b
        obtain ev3 st3 res' ev4 st4 where
          d: "createRange dss ''DaemonSet'' st c st2 = (ev3, st3)"
          and e: "deleteRange st ds ss dss c st3 = (res', ev4, st4)"
          and r: "createVPAs c k st =
             (res',
              [Slog Info ''scanning for changes'' []] @ ev1 @ ev2 @ ev3 @ ev4
              @ (if res' = Inr None then [Slog Info ''completed scanning for changes'' []]
                 else []),
              st4)" by auto
        note d1 = createRange_calls [OF d] createRange_mono [OF d]
        have n3: "\<forall>x \<in> set st3. x \<in> set st \<or>
               (\<exists>(kind, w) \<in> set (workloads k).
                  \<not> hasVPA st w \<and> x = managedVPA ''apps/v1'' kind w)"
          using createRange_new [OF d] n2 DS by (fastforce simp: workloads_def)
        have st': "st' = st4" using r run by simp
        have dc: "deleteCalls ev = deleteCalls ev4"
          using r run a1 b1 d1 by (auto simp: deleteCalls_append)
        note c1 = createVPAs_calls(1) [OF None D S DS run]
        note c2 = createVPAs_calls(2) [OF None D S DS run]
        have p1: "set (createCalls ev) \<subseteq>
           set (toCreate ''Deployment'' (items (Deployments k)) st
                @ toCreate ''StatefulSet'' (items (StatefulSets k)) st
                @ toCreate ''DaemonSet'' (items (DaemonSets k)) st)"
          using c1 D S DS by simp
        have p2: "set (deleteCalls ev) \<subseteq>
             set (toDelete (items (Deployments k)) (items (StatefulSets k))
                    (items (DaemonSets k)) st)"
          using set_mono_prefix [OF c2] D S DS by simp
        have p3: "\<forall>x \<in> set st. objKey x \<notin> set (deleteCalls ev) \<longrightarrow> x \<in> set st'"
          using deleteRange_store [OF e] a1(3) b1(3) d1(3) unfolding st' dc by blast
        have p4: "\<forall>x \<in> set st'. x \<in> set st \<or>
               (\<exists>(kind, w) \<in> set (workloads k).
                  \<not> hasVPA st w \<and> x = managedVPA ''apps/v1'' kind w)"
          using deleteRange_store [OF e] n3 unfolding st' by blast
        show ?thesis using p1 p2 p3 p4 by blast
      qed
    qed
  qed
qed

lemma toCreate_workloads:
  assumes "Deployments k = Inr ds" "StatefulSets k = Inr ss" "DaemonSets k = Inr dss"
  shows "toCreate ''Deployment'' ds st @ toCreate ''StatefulSet'' ss st
           @ toCreate ''DaemonSet'' dss st
         = map (\<lambda>(kind, w). (Namespace w, managedVPA ''apps/v1'' kind w))
             (filter (\<lambda>(kind, w). \<not> hasVPA st w) (workloads k))"
  using assms by (simp add: toCreate_def workloads_def filter_map comp_def)

lemma managedVPA_inject:
  "managedVPA api kind w = managedVPA api' kind' w' \<longleftrightarrow> api = api' \<and> kind = kind' \<and> w = w'"
  by (auto simp: managedVPA_def)


lemma toDelete_member:
  "distinct (map objKey st) \<Longrightarrow> v \<in> set st \<Longrightarrow>
     objKey v \<in> set (toDelete ds ss dss st) \<longleftrightarrow> orphaned ds ss dss v"
  by (auto simp: toDelete_def distinct_map dest: inj_onD)



lemma toCreate_items:
  "toCreate ''Deployment'' (items (Deployments k)) st
   @ toCreate ''StatefulSet'' (items (StatefulSets k)) st
   @ toCreate ''DaemonSet'' (items (DaemonSets k)) st
   = map (\<lambda>(kind, w). (Namespace w, managedVPA ''apps/v1'' kind w))
       (filter (\<lambda>(kind, w). \<not> hasVPA st w) (workloads k))"
  by (simp add: toCreate_def workloads_def filter_map comp_def)

lemma isManagedVPASpec_managedVPA: "isManagedVPASpec kind w (managedVPA ''apps/v1'' kind w)"
  by (simp add: isManagedVPASpec_def managedVPA_def UpdateModeOff_def)

lemma createVPAs_Create_iff:
  assumes "listErr c = None" and "Deployments k = Inr ds" and "StatefulSets k = Inr ss"
    and "DaemonSets k = Inr dss" and "createVPAs c k st = (res, ev, st')"
    and "(kind, w) \<in> set (workloads k)"
  shows "Create (Namespace w) (managedVPA ''apps/v1'' kind w) \<in> set ev \<longleftrightarrow> \<not> hasVPA st w"
proof -
  let ?f = "\<lambda>(kind, w). (Namespace w, managedVPA ''apps/v1'' kind w)"
  have "createCalls ev = map ?f (filter (\<lambda>(kind, w). \<not> hasVPA st w) (workloads k))"
    using createVPAs_calls(1) [OF assms(1-5)] toCreate_workloads [OF assms(2-4), of st]
    by simp
  moreover have "inj ?f"
    by (auto simp: inj_on_def managedVPA_inject)
  ultimately have "Create (Namespace w) (managedVPA ''apps/v1'' kind w) \<in> set ev
      \<longleftrightarrow> (kind, w) \<in> set (filter (\<lambda>(kind, w). \<not> hasVPA st w) (workloads k))"
    using inj_image_mem_iff [of ?f "(kind, w)"] by (simp add: Create_in_events)
  then show ?thesis using assms(6) by simp
qed

lemma list_all2_sameDecisionKey:
  assumes "list_all2 sameDecisionKey st st2"
  shows "hasVPA st2 w = hasVPA st w"
    and "toDelete ds ss dss st2 = toDelete ds ss dss st"
proof -
  have o: "orphaned ds ss dss v = orphaned ds ss dss v'" if "sameDecisionKey v v'" for v v'
    using that by (simp add: sameDecisionKey_def orphaned_def hasWorkload_def)
  have k: "objKey v = objKey v'" if "sameDecisionKey v v'" for v v'
    using that by (simp add: sameDecisionKey_def objKey_def)
  have "map objKey st2 = map objKey st"
    using assms by (induction rule: list_all2_induct) (simp_all add: k)
  then have "objKey ` set st2 = objKey ` set st" by (metis set_map)
  then show "hasVPA st2 w = hasVPA st w" by (simp add: hasVPA_objKey)
  show "toDelete ds ss dss st2 = toDelete ds ss dss st"
    using assms unfolding toDelete_def
    by (induction rule: list_all2_induct) (auto simp: k o)
qed

lemma toDelete_subset: "set (toDelete ds ss dss st) \<subseteq> objKey ` set st"
  by (auto simp: toDelete_def)

lemma toDelete_empty: "\<forall>x \<in> set st. \<not> orphaned ds ss dss x \<Longrightarrow> toDelete ds ss dss st = []"
  by (simp add: toDelete_def filter_empty_conv)

lemma toCreate_empty: "\<forall>w \<in> set ws. hasVPA st w \<Longrightarrow> toCreate kind ws st = []"
  by (simp add: toCreate_def filter_empty_conv)

lemma managedVPA_settled:
  assumes "(kind, w) \<in> set (workloads k)"
    and "Deployments k = Inr ds" "StatefulSets k = Inr ss" "DaemonSets k = Inr dss"
  shows "\<not> orphaned ds ss dss (managedVPA ''apps/v1'' kind w)"
  using assms managedVPA_not_orphaned [of w _ kind "''apps/v1''"]
  by (auto simp: workloads_def orphaned_def)

lemma managedVPA_TargetRef: "TargetRef (Spec (managedVPA api kind w)) \<noteq> None"
  by (simp add: managedVPA_def)

lemma cluster_cycle:
  assumes D: "Deployments k = Inr ds" and S: "StatefulSets k = Inr ss"
    and DS: "DaemonSets k = Inr dss"
    and dist: "distinct (map objKey st)"
    and refs: "\<forall>v \<in> set st. TargetRef (Spec v) \<noteq> None"
  shows "\<exists>ev st'. createVPAs cluster k st = (Inr None, ev, st')
           \<and> distinct (map objKey st')
           \<and> (\<forall>v \<in> set st'. TargetRef (Spec v) \<noteq> None)
           \<and> (\<forall>x \<in> set st'. \<not> orphaned ds ss dss x)
           \<and> (\<forall>(kind, w) \<in> set (workloads k). \<not> hasVPA st w \<longrightarrow> hasVPA st' w)
           \<and> (\<forall>x \<in> set st. \<not> orphaned ds ss dss x \<longrightarrow> x \<in> set st')
           \<and> ((\<forall>x \<in> set st. \<not> orphaned ds ss dss x)
                \<and> (\<forall>(kind, w) \<in> set (workloads k). hasVPA st w) \<longrightarrow> st' = st)"
proof -
  have L: "listErr cluster = None" by (simp add: cluster_def)
  from createVPAs_fetched [OF L D S DS, of st]
  obtain ev1 st1 ev2 st2 ev3 st3 res ev4 st4 where
    a: "createRange ds ''Deployment'' st cluster st = (ev1, st1)"
    and b: "createRange ss ''StatefulSet'' st cluster st1 = (ev2, st2)"
    and d: "createRange dss ''DaemonSet'' st cluster st2 = (ev3, st3)"
    and e: "deleteRange st ds ss dss cluster st3 = (res, ev4, st4)"
    and r: "createVPAs cluster k st =
         (res,
          [Slog Info ''scanning for changes'' []] @ ev1 @ ev2 @ ev3 @ ev4
          @ (if res = Inr None then [Slog Info ''completed scanning for changes'' []] else []),
          st4)" by blast
  let ?del = "toDelete ds ss dss st"
  have m1: "set st \<subseteq> set st1" and m2: "set st1 \<subseteq> set st2" and m3: "set st2 \<subseteq> set st3"
    using createRange_mono [OF a] createRange_mono [OF b] createRange_mono [OF d] by blast+
  have m: "set st \<subseteq> set st3" using m1 m2 m3 by blast
  have d3: "distinct (map objKey st3)"
    using createRange_cluster_distinct [OF d]
      createRange_cluster_distinct [OF b] createRange_cluster_distinct [OF a] dist by blast
  have sub: "objKey ` set st \<subseteq> objKey ` set st3" using m by blast
  from deleteRange_cluster [OF dist sub refs, of ds ss dss] e
  have res: "res = Inr None" and st4: "st4 = filter (\<lambda>x. objKey x \<notin> set ?del) st3"
    by auto
  have run: "createVPAs cluster k st = (Inr None,
          [Slog Info ''scanning for changes'' []] @ ev1 @ ev2 @ ev3 @ ev4
          @ [Slog Info ''completed scanning for changes'' []], st4)"
    using r res by simp
  have new: "x \<in> set st \<or>
      (\<exists>(kind, w) \<in> set (workloads k). x = managedVPA ''apps/v1'' kind w)"
    if "x \<in> set st3" for x
  proof -
    have "x \<in> set st2 \<or> (\<exists>w \<in> set dss. x = managedVPA ''apps/v1'' ''DaemonSet'' w)"
      using createRange_new [OF d that] by blast
    moreover have "y \<in> set st1 \<or> (\<exists>w \<in> set ss. y = managedVPA ''apps/v1'' ''StatefulSet'' w)"
      if "y \<in> set st2" for y using createRange_new [OF b that] by blast
    moreover have "y \<in> set st \<or> (\<exists>w \<in> set ds. y = managedVPA ''apps/v1'' ''Deployment'' w)"
      if "y \<in> set st1" for y using createRange_new [OF a that] by blast
    ultimately consider "x \<in> set st"
      | w where "w \<in> set ds" "x = managedVPA ''apps/v1'' ''Deployment'' w"
      | w where "w \<in> set ss" "x = managedVPA ''apps/v1'' ''StatefulSet'' w"
      | w where "w \<in> set dss" "x = managedVPA ''apps/v1'' ''DaemonSet'' w"
      by blast
    then show ?thesis
    proof cases
      case 1
      then show ?thesis by blast
    next
      case 2
      then have "(''Deployment'', w) \<in> set (workloads k)" using D by (simp add: workloads_def)
      then show ?thesis using 2(2) by blast
    next
      case 3
      then have "(''StatefulSet'', w) \<in> set (workloads k)" using S by (simp add: workloads_def)
      then show ?thesis using 3(2) by blast
    next
      case 4
      then have "(''DaemonSet'', w) \<in> set (workloads k)" using DS by (simp add: workloads_def)
      then show ?thesis using 4(2) by blast
    qed
  qed
  have p1: "distinct (map objKey st4)"
    unfolding st4 using d3 by (rule distinct_map_filter)
  have p2: "\<forall>v \<in> set st4. TargetRef (Spec v) \<noteq> None"
  proof
    fix v assume "v \<in> set st4"
    then have "v \<in> set st3" by (simp add: st4)
    from new [OF this] show "TargetRef (Spec v) \<noteq> None"
      using refs managedVPA_TargetRef by blast
  qed
  have p3: "\<forall>x \<in> set st4. \<not> orphaned ds ss dss x"
  proof
    fix x assume x: "x \<in> set st4"
    then have x3: "x \<in> set st3" and nd: "objKey x \<notin> set ?del" by (simp_all add: st4)
    from new [OF x3] show "\<not> orphaned ds ss dss x"
    proof
      assume "x \<in> set st"
      then show ?thesis using nd by (auto simp: toDelete_def)
    next
      assume "\<exists>(kind, w) \<in> set (workloads k). x = managedVPA ''apps/v1'' kind w"
      then obtain kind w where "(kind, w) \<in> set (workloads k)"
        "x = managedVPA ''apps/v1'' kind w" by blast
      then show ?thesis using managedVPA_settled [OF _ D S DS] by blast
    qed
  qed
  have p4: "\<forall>(kind, w) \<in> set (workloads k). \<not> hasVPA st w \<longrightarrow> hasVPA st4 w"
  proof (intro ballI, clarify)
    fix kind w assume kw: "(kind, w) \<in> set (workloads k)" and n: "\<not> hasVPA st w"
    from kw consider "w \<in> set ds" | "w \<in> set ss" | "w \<in> set dss"
      using D S DS by (auto simp: workloads_def)
    then have "objKey w \<in> objKey ` set st3"
    proof cases
      case 1
      from createRange_cluster_covers [OF a 1 n] show ?thesis using m2 m3 by blast
    next
      case 2
      from createRange_cluster_covers [OF b 2 n] show ?thesis using m3 by blast
    next
      case 3
      from createRange_cluster_covers [OF d 3 n] show ?thesis .
    qed
    then obtain x where x: "x \<in> set st3" "objKey x = objKey w" by auto
    have "objKey w \<notin> objKey ` set st" using n by (simp add: hasVPA_objKey)
    then have "objKey x \<notin> set ?del" using toDelete_subset [of ds ss dss st] x(2) by auto
    then have "x \<in> set st4" using x(1) by (simp add: st4)
    then have "objKey w \<in> objKey ` set st4" using x(2) by (metis imageI)
    then show "hasVPA st4 w" by (simp add: hasVPA_objKey)
  qed
  have p5: "\<forall>x \<in> set st. \<not> orphaned ds ss dss x \<longrightarrow> x \<in> set st4"
  proof (intro ballI impI)
    fix x assume x: "x \<in> set st" and n: "\<not> orphaned ds ss dss x"
    have "objKey x \<notin> set ?del" using toDelete_member [OF dist x, of ds ss dss] n by simp
    then show "x \<in> set st4" using x m by (auto simp: st4)
  qed
  have p6: "st4 = st"
    if s: "\<forall>x \<in> set st. \<not> orphaned ds ss dss x"
      and c: "\<forall>(kind, w) \<in> set (workloads k). hasVPA st w"
  proof -
    have "\<forall>w \<in> set ds. hasVPA st w" "\<forall>w \<in> set ss. hasVPA st w" "\<forall>w \<in> set dss. hasVPA st w"
      using c D S DS by (auto simp: workloads_def)
    then have "st1 = st" "st2 = st1" "st3 = st2"
      using createRange_cluster_idle [OF a] createRange_cluster_idle [OF b]
        createRange_cluster_idle [OF d] by blast+
    moreover have "?del = []" using s by (rule toDelete_empty)
    ultimately show ?thesis by (simp add: st4)
  qed
  show ?thesis using run p1 p2 p3 p4 p5 p6 by blast
qed

lemma hasVPA_mono: "set st \<subseteq> set st' \<Longrightarrow> hasVPA st w \<Longrightarrow> hasVPA st' w"
  by (auto simp: hasVPA_def)












lemma applyDeletes_prefix: "prefix (fst (snd (applyDeletes c xs s))) xs"
  by (induction xs arbitrary: s) (auto simp: split_beta split: prod.splits option.splits)


lemma applyDeletes_Some:
  "fst (applyDeletes c xs s) = Some e \<Longrightarrow>
     \<exists>as ns n s1. fst (snd (applyDeletes c xs s)) = as @ [(ns, n)] \<and> deleteErr c s1 ns n = Some e"
proof (induction xs arbitrary: s)
  case Nil
  then show ?case by simp
next
  case (Cons x xs)
  obtain ns n where x: "x = (ns, n)" by (cases x)
  obtain r s1 where d: "DeleteVPA c ns n s = (r, s1)" by (cases "DeleteVPA c ns n s")
  show ?case
  proof (cases r)
    case None
    then have "fst (applyDeletes c xs s1) = Some e"
      using Cons.prems x d by (simp add: split_beta)
    from Cons.IH [OF this] obtain as ns' n' s2 where
      "fst (snd (applyDeletes c xs s1)) = as @ [(ns', n')]" "deleteErr c s2 ns' n' = Some e"
      by blast
    then have "fst (snd (applyDeletes c (x # xs) s)) = ((ns, n) # as) @ [(ns', n')]"
      "deleteErr c s2 ns' n' = Some e"
      using x d None by (simp_all add: split_beta)
    then show ?thesis by blast
  next
    case (Some e')
    then have "fst (snd (applyDeletes c (x # xs) s)) = [] @ [(ns, n)]" "e' = e"
      using Cons.prems x d by simp_all
    moreover have "deleteErr c s ns n = Some e'"
      using d Some by (simp add: DeleteVPA_def split: option.splits)
    ultimately show ?thesis by blast
  qed
qed





lemma toDelete_append:
  "toDelete ds ss dss (pre @ post) = toDelete ds ss dss pre @ toDelete ds ss dss post"
  by (simp add: toDelete_def)






lemma sameDecisionKey_refl: "sameDecisionKey v v"
  by (simp add: sameDecisionKey_def)

lemma sameDecisionKey_append:
  "list_all2 sameDecisionKey s s2 \<Longrightarrow> list_all2 sameDecisionKey (s @ [obj]) (s2 @ [obj])"
  by (simp add: list_all2_appendI sameDecisionKey_refl)

lemma sameDecisionKey_filter:
  "list_all2 sameDecisionKey s s2 \<Longrightarrow>
     list_all2 sameDecisionKey
       (filter (\<lambda>x. \<not> (Namespace x = ns \<and> Name x = n)) s)
       (filter (\<lambda>x. \<not> (Namespace x = ns \<and> Name x = n)) s2)"
  by (induction rule: list_all2_induct) (auto simp: sameDecisionKey_def)

lemma sameDecisionKey_kindMatch:
  "sameDecisionKey v v2 \<Longrightarrow> kindMatch line kind v2 = kindMatch line kind v"
  by (rule ext)
    (auto simp: sameDecisionKey_def kindMatch_def targetKind_def split: option.splits)

lemma sameDecisionKey_keeps:
  assumes "sameDecisionKey v v2"
  shows "keeps ds ss dss v2 = keeps ds ss dss v"
proof -
  have km: "kindMatch line kind v2 = kindMatch line kind v" for line kind
    using assms by (rule sameDecisionKey_kindMatch)
  have nm: "Name v2 = Name v" using assms by (simp add: sameDecisionKey_def)
  show ?thesis unfolding keeps_def km nm by (rule refl)
qed

lemma sim_createVPA:
  assumes H: "\<forall>s s2. list_all2 sameDecisionKey s s2 \<longrightarrow>
                createErr c s = createErr c s2 \<and> deleteErr c s = deleteErr c s2"
    and V: "list_all2 sameDecisionKey vpas vpas2" and S: "list_all2 sameDecisionKey s s2"
  shows "fst (createVPA t api kind vpas2 c s2) = fst (createVPA t api kind vpas c s)
         \<and> list_all2 sameDecisionKey (snd (createVPA t api kind vpas c s))
             (snd (createVPA t api kind vpas2 c s2))"
proof -
  have hv: "hasVPA vpas2 t = hasVPA vpas t"
    using list_all2_sameDecisionKey(1) [OF V] .
  have ce: "createErr c s2 = createErr c s" using H S by metis
  have cf: "ContainsFunc vpas2 (\<lambda>v. Name t = Name v \<and> Namespace t = Namespace v)
            = ContainsFunc vpas (\<lambda>v. Name t = Name v \<and> Namespace t = Namespace v)"
    using hv unfolding hasVPA_def ContainsFunc_iff by metis
  show ?thesis
    using S sameDecisionKey_append [OF S]
    by (simp add: createVPA_def cf ce CreateVPA_def Let_def split: option.splits)
qed

lemma sim_createRange:
  assumes H: "\<forall>s s2. list_all2 sameDecisionKey s s2 \<longrightarrow>
                createErr c s = createErr c s2 \<and> deleteErr c s = deleteErr c s2"
    and V: "list_all2 sameDecisionKey vpas vpas2"
  shows "list_all2 sameDecisionKey s s2 \<Longrightarrow>
     fst (createRange ws kind vpas2 c s2) = fst (createRange ws kind vpas c s)
     \<and> list_all2 sameDecisionKey (snd (createRange ws kind vpas c s))
         (snd (createRange ws kind vpas2 c s2))"
proof (induction ws arbitrary: s s2)
  case Nil
  then show ?case by simp
next
  case (Cons w ws)
  note x = sim_createVPA [OF H V Cons.prems, of w "''apps/v1''" kind]
  note y = Cons.IH [OF x [THEN conjunct2]]
  show ?case using x y by (simp add: split_beta)
qed

lemma sim_deleteRange:
  assumes H: "\<forall>s s2. list_all2 sameDecisionKey s s2 \<longrightarrow>
                createErr c s = createErr c s2 \<and> deleteErr c s = deleteErr c s2"
  shows "list_all2 sameDecisionKey vs vs2 \<Longrightarrow> list_all2 sameDecisionKey s s2 \<Longrightarrow>
     fst (deleteRange vs2 ds ss dss c s2) = fst (deleteRange vs ds ss dss c s)
     \<and> fst (snd (deleteRange vs2 ds ss dss c s2)) = fst (snd (deleteRange vs ds ss dss c s))
     \<and> list_all2 sameDecisionKey (snd (snd (deleteRange vs ds ss dss c s)))
         (snd (snd (deleteRange vs2 ds ss dss c s2)))"
proof (induction vs vs2 arbitrary: s s2 rule: list_all2_induct)
  case Nil
  then show ?case by simp
next
  case (Cons v vs v2 vs2)
  note k = sameDecisionKey_keeps [OF Cons.hyps(1), of ds ss dss]
  have nm: "Name v2 = Name v" "Namespace v2 = Namespace v"
    and tk: "targetKind v2 = targetKind v"
    using Cons.hyps(1) by (simp_all add: sameDecisionKey_def)
  have de: "deleteErr c s2 = deleteErr c s" using H Cons.prems by metis
  let ?f = "filter (\<lambda>x. \<not> (Namespace x = Namespace v \<and> Name x = Name v))"
  have fl: "list_all2 sameDecisionKey (?f s) (?f s2)"
    using sameDecisionKey_filter [OF Cons.prems] .
  show ?case
  proof (cases "keeps ds ss dss v")
    case (Inl p)
    then show ?thesis
      using k Cons.prems by (simp add: deleteRange_Cons del: deleteRange.simps)
  next
    case (Inr b)
    show ?thesis
    proof (cases b)
      case True
      then show ?thesis
        using k Inr Cons.IH [OF Cons.prems]
        by (simp add: deleteRange_Cons del: deleteRange.simps)
    next
      case False
      show ?thesis
      proof (cases "deleteErr c s (Namespace v) (Name v)")
        case (Some e)
        then show ?thesis
          using k Inr False nm de Cons.prems
          by (simp add: deleteRange_Cons DeleteVPA_def del: deleteRange.simps)
      next
        case None
        show ?thesis
        proof (cases "TargetRef (Spec v)")
          case None': None
          then have "TargetRef (Spec v2) = None" using tk by (simp add: targetKind_def)
          then show ?thesis
            using k Inr False nm de None None' fl
            by (simp add: deleteRange_Cons DeleteVPA_def del: deleteRange.simps)
        next
          case (Some r)
          then obtain r2 where r2: "TargetRef (Spec v2) = Some r2" "Kind r2 = Kind r"
            using tk by (auto simp: targetKind_def)
          show ?thesis
            using k Inr False nm de None Some r2 Cons.IH [OF fl]
            by (simp add: deleteRange_Cons DeleteVPA_def split_beta del: deleteRange.simps)
        qed
      qed
    qed
  qed
qed

lemma sim_createVPAs:
  assumes f: "listErr c = None" "Deployments k = Inr ds" "StatefulSets k = Inr ss"
    "DaemonSets k = Inr dss"
    and H: "\<forall>s s2. list_all2 sameDecisionKey s s2 \<longrightarrow>
                createErr c s = createErr c s2 \<and> deleteErr c s = deleteErr c s2"
    and V: "list_all2 sameDecisionKey st st2"
  shows "fst (createVPAs c k st2) = fst (createVPAs c k st)
         \<and> fst (snd (createVPAs c k st2)) = fst (snd (createVPAs c k st))
         \<and> list_all2 sameDecisionKey (snd (snd (createVPAs c k st))) (snd (snd (createVPAs c k st2)))"
proof -
  from createVPAs_fetched [OF f, of st] obtain ev1 st1 ev2 st2' ev3 st3 res ev4 st4 where
    a: "createRange ds ''Deployment'' st c st = (ev1, st1)"
    and b: "createRange ss ''StatefulSet'' st c st1 = (ev2, st2')"
    and d: "createRange dss ''DaemonSet'' st c st2' = (ev3, st3)"
    and e: "deleteRange st ds ss dss c st3 = (res, ev4, st4)"
    and r: "createVPAs c k st =
         (res,
          [Slog Info ''scanning for changes'' []] @ ev1 @ ev2 @ ev3 @ ev4
          @ (if res = Inr None then [Slog Info ''completed scanning for changes'' []] else []),
          st4)" by blast
  from createVPAs_fetched [OF f, of st2] obtain fv1 t1 fv2 t2 fv3 t3 res' fv4 t4 where
    a': "createRange ds ''Deployment'' st2 c st2 = (fv1, t1)"
    and b': "createRange ss ''StatefulSet'' st2 c t1 = (fv2, t2)"
    and d': "createRange dss ''DaemonSet'' st2 c t2 = (fv3, t3)"
    and e': "deleteRange st2 ds ss dss c t3 = (res', fv4, t4)"
    and r': "createVPAs c k st2 =
         (res',
          [Slog Info ''scanning for changes'' []] @ fv1 @ fv2 @ fv3 @ fv4
          @ (if res' = Inr None then [Slog Info ''completed scanning for changes'' []] else []),
          t4)" by blast
  have x1: "fv1 = ev1" "list_all2 sameDecisionKey st1 t1"
    using sim_createRange [OF H V V, of ds "''Deployment''"] a a' by simp_all
  have x2: "fv2 = ev2" "list_all2 sameDecisionKey st2' t2"
    using sim_createRange [OF H V x1(2), of ss "''StatefulSet''"] b b' by simp_all
  have x3: "fv3 = ev3" "list_all2 sameDecisionKey st3 t3"
    using sim_createRange [OF H V x2(2), of dss "''DaemonSet''"] d d' by simp_all
  have x4: "res' = res" "fv4 = ev4" "list_all2 sameDecisionKey st4 t4"
    using sim_deleteRange [OF H V x3(2), of ds ss dss] e e' by simp_all
  show ?thesis unfolding r r' using x1 x2 x3 x4 by simp
qed

section \<open>The claims\<close>



text \<open>
  C2. In a cycle whose four list calls succeed, whatever else fails, the create calls are
  those of the plan: one for each listed workload for which the snapshot holds no object
  of the same name and namespace, carrying the managed object built from the workload's
  kind, name and namespace. The target kind of the objects in the snapshot plays no part:
  \<open>hasVPA\<close> compares name and namespace only.
\<close>

theorem create_calls_are_the_unmatched_workloads:
  assumes "listErr c = None" and "Deployments k = Inr ds" and "StatefulSets k = Inr ss"
    and "DaemonSets k = Inr dss" and "createVPAs c k st = (res, ev, st')"
  shows "createCalls ev =
           toCreate ''Deployment'' ds st @ toCreate ''StatefulSet'' ss st
           @ toCreate ''DaemonSet'' dss st
         \<and> (\<forall>(kind, w) \<in> set (workloads k).
              Create (Namespace w) (managedVPA ''apps/v1'' kind w) \<in> set ev
              \<longleftrightarrow> \<not> (\<exists>v \<in> set st. Name v = Name w \<and> Namespace v = Namespace w))
         \<and> (distinct (workloads k) \<longrightarrow> distinct (createCalls ev))"
proof -
  let ?f = "\<lambda>(kind, w). (Namespace w, managedVPA ''apps/v1'' kind w)"
  have cc: "createCalls ev =
           toCreate ''Deployment'' ds st @ toCreate ''StatefulSet'' ss st
           @ toCreate ''DaemonSet'' dss st"
    using createVPAs_calls(1) [OF assms] .
  have wl: "createCalls ev = map ?f (filter (\<lambda>(kind, w). \<not> hasVPA st w) (workloads k))"
    unfolding cc using assms(2-4) by (rule toCreate_workloads)
  have inj: "inj ?f"
    by (auto simp: inj_on_def managedVPA_inject)
  have mem: "Create (Namespace w) (managedVPA ''apps/v1'' kind w) \<in> set ev \<longleftrightarrow> \<not> hasVPA st w"
    if "(kind, w) \<in> set (workloads k)" for kind w
  proof -
    have "Create (Namespace w) (managedVPA ''apps/v1'' kind w) \<in> set ev
          \<longleftrightarrow> ?f (kind, w) \<in> ?f ` set (filter (\<lambda>(kind, w). \<not> hasVPA st w) (workloads k))"
      by (simp add: Create_in_events wl)
    also have "\<dots> \<longleftrightarrow> (kind, w) \<in> set (filter (\<lambda>(kind, w). \<not> hasVPA st w) (workloads k))"
      using inj by (rule inj_image_mem_iff)
    also have "\<dots> \<longleftrightarrow> \<not> hasVPA st w" using that by simp
    finally show ?thesis .
  qed
  have dist: "distinct (createCalls ev)" if "distinct (workloads k)"
    unfolding wl using that inj by (auto simp: distinct_map intro: inj_on_subset)
  show ?thesis using cc mem dist by (auto simp: hasVPA_def)
qed

theorem create_calls_are_the_unmatched_workloads_witness:
  "listErr reliable = None
   \<and> Deployments exK8s = Inr [target ''api'' ''ns'', target ''web'' ''default'']
   \<and> hasVPA exVPAs (target ''api'' ''ns'')
   \<and> distinct (workloads exK8s)
   \<and> createCalls (fst (snd (createVPAs reliable exK8s exVPAs))) =
       [(''default'', managedVPA ''apps/v1'' ''Deployment'' (target ''web'' ''default'')),
        (''default'', managedVPA ''apps/v1'' ''StatefulSet'' (target ''db'' ''default''))]
   \<and> Create ''ns'' (managedVPA ''apps/v1'' ''Deployment'' (target ''api'' ''ns''))
       \<notin> set (fst (snd (createVPAs reliable exK8s exVPAs)))
   \<and> distinct (createCalls (fst (snd (createVPAs reliable exK8s exVPAs))))"
  using create_calls_are_the_unmatched_workloads
    [of reliable exK8s "[target ''api'' ''ns'', target ''web'' ''default'']"
       "[target ''db'' ''default'']" "[]" exVPAs
       "fst (createVPAs reliable exK8s exVPAs)" "fst (snd (createVPAs reliable exK8s exVPAs))"
       "snd (snd (createVPAs reliable exK8s exVPAs))"]
  by (simp add: reliable_def exK8s_def k8s_def exVPAs_def target_def toCreate_def hasVPA_def
      managedVPA_def workloads_def)

text \<open>
  C3. Planning is not total. An object of the snapshot without a target reference, with a
  Deployment of its name and namespace, makes the first guard of the delete loop read
  through a nil pointer: the cycle panics, and with it the process.
\<close>

theorem nil_target_reference_panics:
  "createVPAs reliable (k8s [target ''api'' ''ns''] [] []) [exNoRef]
     = (Inl (NilPointerDereference 164), [Slog Info ''scanning for changes'' []], [exNoRef])
   \<and> fst (mainIteration reliable (k8s [target ''api'' ''ns''] [] []) [exNoRef])
       = Inl (NilPointerDereference 164)"
  by (simp add: mainIteration_def createVPAs_def ListVPAs_def createVPA_def kindMatch_def
      reliable_def k8s_def target_def exNoRef_def)




text \<open>
  C5. Whatever the clients answer and however the cycle ends, no delete call names an
  object whose name starts with \<open>goldilocks\<close>, and such an object of the snapshot is
  still stored after the cycle.
\<close>

theorem goldilocks_is_never_deleted:
  assumes "createVPAs c k st = (res, ev, st')" and "prefix ''goldilocks'' (Name v)"
  shows "Delete (Namespace v) (Name v) \<notin> set ev \<and> (v \<in> set st \<longrightarrow> v \<in> set st')"
proof -
  note any = createVPAs_any [OF assms(1)]
  have no: "objKey v \<notin> set (deleteCalls ev)"
  proof
    assume "objKey v \<in> set (deleteCalls ev)"
    then have "objKey v \<in> set (toDelete (items (Deployments k)) (items (StatefulSets k))
                    (items (DaemonSets k)) st)"
      using any by blast
    then obtain u where "orphaned (items (Deployments k)) (items (StatefulSets k))
                    (items (DaemonSets k)) u" "objKey u = objKey v"
      by (auto simp: toDelete_def)
    then show False using assms(2) by (simp add: orphaned_def objKey_def)
  qed
  then have "Delete (Namespace v) (Name v) \<notin> set ev"
    by (simp add: Delete_in_events objKey_def)
  moreover have "v \<in> set st'" if "v \<in> set st" using any no that by blast
  ultimately show ?thesis by blast
qed

theorem goldilocks_is_never_deleted_witness:
  "prefix ''goldilocks''
     (Name (managedVPA ''apps/v1'' ''Deployment'' (target ''goldilocks-api'' ''ns'')))
   \<and> managedVPA ''apps/v1'' ''Deployment'' (target ''goldilocks-api'' ''ns'') \<in> set exGoldilocks
   \<and> deleteCalls (fst (snd (createVPAs reliable (k8s [] [] []) exGoldilocks)))
       = [(''ns'', ''old'')]
   \<and> Delete ''ns'' ''goldilocks-api''
       \<notin> set (fst (snd (createVPAs reliable (k8s [] [] []) exGoldilocks)))
   \<and> managedVPA ''apps/v1'' ''Deployment'' (target ''goldilocks-api'' ''ns'')
       \<in> set (snd (snd (createVPAs reliable (k8s [] [] []) exGoldilocks)))"
proof -
  let ?R = "createVPAs reliable (k8s [] [] []) exGoldilocks"
  let ?v = "managedVPA ''apps/v1'' ''Deployment'' (target ''goldilocks-api'' ''ns'')"
  have run: "?R = (fst ?R, fst (snd ?R), snd (snd ?R))" by simp
  have p: "prefix ''goldilocks'' (Name ?v)" by code_simp
  note t = goldilocks_is_never_deleted [OF run p]
  have v: "?v \<in> set exGoldilocks" "Namespace ?v = ''ns''" "Name ?v = ''goldilocks-api''"
    by (simp_all add: exGoldilocks_def managedVPA_def target_def)
  have d: "deleteCalls (fst (snd ?R)) = [(''ns'', ''old'')]" by code_simp
  show ?thesis using t p v d by simp
qed

text \<open>
  C6. The cycle is a function of the clients' answers and the stored objects, so the same
  snapshots give the same plan. Against the cluster (nobody else changing it), from a
  store with unique names per namespace whose objects all have a target reference: every
  cycle runs to its end; the second cycle deletes nothing; the third cycle makes no call
  and leaves the store as it is. The second cycle already makes no call when no orphaned
  object of the first snapshot has the name and namespace of a workload. Such an object
  (a target kind that differs from the workload's) is deleted by the first cycle and
  created anew by the second.
\<close>

theorem plan_reaches_a_fixed_point:
  assumes D: "Deployments k = Inr ds" and S: "StatefulSets k = Inr ss"
    and DS: "DaemonSets k = Inr dss"
    and dist: "distinct (map objKey st)"
    and refs: "\<forall>v \<in> set st. TargetRef (Spec v) \<noteq> None"
    and run1: "createVPAs cluster k st = (res1, ev1, st1)"
    and run2: "createVPAs cluster k st1 = (res2, ev2, st2)"
    and run3: "createVPAs cluster k st2 = (res3, ev3, st3)"
  shows "res1 = Inr None \<and> res2 = Inr None \<and> res3 = Inr None
         \<and> deleteCalls ev2 = []
         \<and> ((\<forall>v \<in> set st. orphaned ds ss dss v \<longrightarrow>
                 \<not> (\<exists>(kind, w) \<in> set (workloads k).
                       Name w = Name v \<and> Namespace w = Namespace v))
              \<longrightarrow> createCalls ev2 = [] \<and> st2 = st1)
         \<and> createCalls ev3 = [] \<and> deleteCalls ev3 = [] \<and> st3 = st2"
proof -
  have L: "listErr cluster = None" by (simp add: cluster_def)
  from cluster_cycle [OF D S DS dist refs] obtain ev1' st1' where
    q1: "createVPAs cluster k st = (Inr None, ev1', st1')"
    and i1': "distinct (map objKey st1')"
    and t1': "\<forall>v \<in> set st1'. TargetRef (Spec v) \<noteq> None"
    and s1': "\<forall>x \<in> set st1'. \<not> orphaned ds ss dss x"
    and c1': "\<forall>(kind, w) \<in> set (workloads k). \<not> hasVPA st w \<longrightarrow> hasVPA st1' w"
    and k1': "\<forall>x \<in> set st. \<not> orphaned ds ss dss x \<longrightarrow> x \<in> set st1'"
    by (elim exE conjE)
  have r1: "res1 = Inr None" and e1: "st1' = st1" using q1 run1 by simp_all
  note i1 = i1' [unfolded e1] and t1 = t1' [unfolded e1] and s1 = s1' [unfolded e1]
    and c1 = c1' [unfolded e1] and k1 = k1' [unfolded e1]
  from cluster_cycle [OF D S DS i1 t1] obtain ev2' st2' where
    q2: "createVPAs cluster k st1 = (Inr None, ev2', st2')"
    and i2': "distinct (map objKey st2')"
    and t2': "\<forall>v \<in> set st2'. TargetRef (Spec v) \<noteq> None"
    and s2': "\<forall>x \<in> set st2'. \<not> orphaned ds ss dss x"
    and c2': "\<forall>(kind, w) \<in> set (workloads k). \<not> hasVPA st1 w \<longrightarrow> hasVPA st2' w"
    and k2': "\<forall>x \<in> set st1. \<not> orphaned ds ss dss x \<longrightarrow> x \<in> set st2'"
    and idle2': "(\<forall>x \<in> set st1. \<not> orphaned ds ss dss x)
                \<and> (\<forall>(kind, w) \<in> set (workloads k). hasVPA st1 w) \<longrightarrow> st2' = st1"
    by (elim exE conjE)
  have r2: "res2 = Inr None" and e2: "st2' = st2" using q2 run2 by simp_all
  note i2 = i2' [unfolded e2] and t2 = t2' [unfolded e2] and s2 = s2' [unfolded e2]
    and c2 = c2' [unfolded e2] and k2 = k2' [unfolded e2] and idle2 = idle2' [unfolded e2]
  from cluster_cycle [OF D S DS i2 t2] obtain ev3' st3' where
    q3: "createVPAs cluster k st2 = (Inr None, ev3', st3')"
    and idle3': "(\<forall>x \<in> set st2. \<not> orphaned ds ss dss x)
                \<and> (\<forall>(kind, w) \<in> set (workloads k). hasVPA st2 w) \<longrightarrow> st3' = st2"
    by (elim exE conjE)
  have r3: "res3 = Inr None" and e3: "st3' = st3" using q3 run3 by simp_all
  note idle3 = idle3' [unfolded e3]
  have lists: "w \<in> set ds \<or> w \<in> set ss \<or> w \<in> set dss \<longleftrightarrow> (\<exists>kind. (kind, w) \<in> set (workloads k))"
    for w using D S DS by (auto simp: workloads_def)
  have empty: "toCreate ''Deployment'' ds s @ toCreate ''StatefulSet'' ss s
               @ toCreate ''DaemonSet'' dss s = []"
    if "\<forall>(kind, w) \<in> set (workloads k). hasVPA s w" for s
  proof -
    have "\<forall>w \<in> set ds. hasVPA s w" "\<forall>w \<in> set ss. hasVPA s w" "\<forall>w \<in> set dss. hasVPA s w"
      using that lists by blast+
    then show ?thesis by (simp add: toCreate_empty)
  qed
  have d2: "deleteCalls ev2 = []"
    using createVPAs_calls(3) [OF L D S DS run2 r2] toDelete_empty [OF s1] by simp
  have sub12: "set st1 \<subseteq> set st2" using k2 s1 by blast
  have cov2: "\<forall>(kind, w) \<in> set (workloads k). hasVPA st2 w"
    using c2 hasVPA_mono [OF sub12] by blast
  have st3: "st3 = st2" using idle3 s2 cov2 by blast
  have c3: "createCalls ev3 = []"
    using createVPAs_calls(1) [OF L D S DS run3] empty [OF cov2] by simp
  have d3: "deleteCalls ev3 = []"
    using createVPAs_calls(3) [OF L D S DS run3 r3] toDelete_empty [OF s2] by simp
  have one: "createCalls ev2 = [] \<and> st2 = st1"
    if pr: "\<forall>v \<in> set st. orphaned ds ss dss v \<longrightarrow>
                 \<not> (\<exists>(kind, w) \<in> set (workloads k).
                       Name w = Name v \<and> Namespace w = Namespace v)"
  proof -
    have cov1: "\<forall>(kind, w) \<in> set (workloads k). hasVPA st1 w"
    proof (intro ballI, clarify)
      fix kind w assume kw: "(kind, w) \<in> set (workloads k)"
      show "hasVPA st1 w"
      proof (cases "hasVPA st w")
        case False
        then show ?thesis using c1 kw by blast
      next
        case True
        then obtain v where v: "v \<in> set st" "Name v = Name w" "Namespace v = Namespace w"
          by (auto simp: hasVPA_def)
        have "\<not> orphaned ds ss dss v"
        proof
          assume "orphaned ds ss dss v"
          then have "\<not> (\<exists>(kind, w) \<in> set (workloads k).
                       Name w = Name v \<and> Namespace w = Namespace v)"
            using pr v(1) by blast
          then show False using kw v(2,3) by auto
        qed
        then have "v \<in> set st1" using k1 v(1) by blast
        then show ?thesis using v(2,3) by (auto simp: hasVPA_def)
      qed
    qed
    have "st2 = st1" using idle2 s1 cov1 by blast
    moreover have "createCalls ev2 = []"
      using createVPAs_calls(1) [OF L D S DS run2] empty [OF cov1] by simp
    ultimately show ?thesis by blast
  qed
  show ?thesis using r1 r2 r3 d2 one c3 d3 st3 by blast
qed

theorem plan_reaches_a_fixed_point_witness:
  "distinct (map objKey exVPAs) \<and> list_all (\<lambda>v. TargetRef (Spec v) \<noteq> None) exVPAs
   \<and> fst (createVPAs cluster exK8s exVPAs) = Inr None
   \<and> createCalls (fst (snd (createVPAs cluster exK8s exStore1)))
       = [(''ns'', managedVPA ''apps/v1'' ''Deployment'' (target ''api'' ''ns''))]
   \<and> deleteCalls (fst (snd (createVPAs cluster exK8s exStore1))) = []
   \<and> createCalls (fst (snd (createVPAs cluster exK8s exStore2))) = []
   \<and> deleteCalls (fst (snd (createVPAs cluster exK8s exStore2))) = []
   \<and> snd (snd (createVPAs cluster exK8s exStore2)) = exStore2
   \<and> list_all (\<lambda>v. orphaned [target ''web'' ''default''] [] [] v \<longrightarrow>
         \<not> (\<exists>(kind, w) \<in> set (workloads (k8s [target ''web'' ''default''] [] [])).
               Name w = Name v \<and> Namespace w = Namespace v)) exGoldilocks
   \<and> createCalls (fst (snd (createVPAs cluster (k8s [target ''web'' ''default''] [] [])
                       (snd (snd (createVPAs cluster (k8s [target ''web'' ''default''] [] [])
                                   exGoldilocks)))))) = []"
proof -
  have k: "Deployments exK8s = Inr [target ''api'' ''ns'', target ''web'' ''default'']"
    "StatefulSets exK8s = Inr [target ''db'' ''default'']" "DaemonSets exK8s = Inr []"
    by (simp_all add: exK8s_def k8s_def)
  have d: "distinct (map objKey exVPAs)" by code_simp
  have t: "\<forall>v \<in> set exVPAs. TargetRef (Spec v) \<noteq> None" by code_simp
  let ?R1 = "createVPAs cluster exK8s exVPAs"
  let ?R2 = "createVPAs cluster exK8s exStore1"
  let ?R3 = "createVPAs cluster exK8s exStore2"
  have r1: "?R1 = (fst ?R1, fst (snd ?R1), exStore1)" by (simp add: exStore1_def)
  have r2: "?R2 = (fst ?R2, fst (snd ?R2), exStore2)" by (simp add: exStore2_def)
  have r3: "?R3 = (fst ?R3, fst (snd ?R3), snd (snd ?R3))" by simp
  note a = plan_reaches_a_fixed_point [OF k d t r1 r2 r3]
  note a1 = a [THEN conjunct1]
  note a4 = a [THEN conjunct2, THEN conjunct2, THEN conjunct2, THEN conjunct1]
  note a6 = a [THEN conjunct2, THEN conjunct2, THEN conjunct2, THEN conjunct2, THEN conjunct2]
  note a7 = a6 [THEN conjunct1] and a8 = a6 [THEN conjunct2, THEN conjunct1]
    and a9 = a6 [THEN conjunct2, THEN conjunct2]
  have c2: "createCalls (fst (snd ?R2))
       = [(''ns'', managedVPA ''apps/v1'' ''Deployment'' (target ''api'' ''ns''))]"
    unfolding exStore1_def by code_simp
  let ?k = "k8s [target ''web'' ''default''] [] []"
  have k': "Deployments ?k = Inr [target ''web'' ''default'']"
    "StatefulSets ?k = Inr []" "DaemonSets ?k = Inr []"
    by (simp_all add: k8s_def)
  have d': "distinct (map objKey exGoldilocks)" by code_simp
  have t': "\<forall>v \<in> set exGoldilocks. TargetRef (Spec v) \<noteq> None" by code_simp
  have pr: "\<forall>v \<in> set exGoldilocks.
         orphaned [target ''web'' ''default''] [] [] v \<longrightarrow>
         \<not> (\<exists>(kind, w) \<in> set (workloads ?k).
               Name w = Name v \<and> Namespace w = Namespace v)" by code_simp
  let ?S1 = "createVPAs cluster ?k exGoldilocks"
  let ?S2 = "createVPAs cluster ?k (snd (snd ?S1))"
  let ?S3 = "createVPAs cluster ?k (snd (snd ?S2))"
  have s1: "?S1 = (fst ?S1, fst (snd ?S1), snd (snd ?S1))"
    and s2: "?S2 = (fst ?S2, fst (snd ?S2), snd (snd ?S2))"
    and s3: "?S3 = (fst ?S3, fst (snd ?S3), snd (snd ?S3))" by simp_all
  note b = plan_reaches_a_fixed_point [OF k' d' t' s1 s2 s3]
  note b5 = b [THEN conjunct2, THEN conjunct2, THEN conjunct2, THEN conjunct2, THEN conjunct1]
  note b2 = b5 [THEN mp, OF pr, THEN conjunct1]
  note t'' = t [folded list_all_iff] and pr'' = pr [folded list_all_iff]
  show ?thesis
    by (intro conjI) (rule d t'' a1 c2 a4 a7 a8 a9 pr'' b2)+
qed

text \<open>
  One application of the plan is not enough in general: a Deployment \<open>api\<close> whose
  object records the kind StatefulSet gets no create call in the first cycle, which
  deletes the object; on the store the first cycle leaves, the next cycle creates it.
\<close>

theorem one_application_is_not_a_fixed_point:
  "fst (createVPAs cluster (k8s [target ''api'' ''ns''] [] []) exMismatch) = Inr None
   \<and> createCalls (fst (snd (createVPAs cluster (k8s [target ''api'' ''ns''] [] []) exMismatch)))
       = []
   \<and> deleteCalls (fst (snd (createVPAs cluster (k8s [target ''api'' ''ns''] [] []) exMismatch)))
       = [(''ns'', ''api'')]
   \<and> snd (snd (createVPAs cluster (k8s [target ''api'' ''ns''] [] []) exMismatch)) = []
   \<and> createCalls (fst (snd (createVPAs cluster (k8s [target ''api'' ''ns''] [] []) [])))
       = [(''ns'', managedVPA ''apps/v1'' ''Deployment'' (target ''api'' ''ns''))]"
  by code_simp

text \<open>
  C7. Whatever the clients answer, every object submitted by a create call, and every
  object the cycle adds to the stored ones, has the managed shape for some listed workload:
  the workload's name and namespace, a target reference with API version "apps/v1", the
  workload's kind and the workload's name, and the update mode "Off"; the call is made in
  the workload's namespace.
\<close>

theorem created_objects_have_the_managed_shape:
  assumes "createVPAs c k st = (res, ev, st')"
  shows "(\<forall>ns obj. Create ns obj \<in> set ev \<longrightarrow>
            (\<exists>(kind, w) \<in> set (workloads k). ns = Namespace w \<and> isManagedVPASpec kind w obj))
         \<and> (\<forall>x \<in> set st'. x \<notin> set st \<longrightarrow>
              (\<exists>(kind, w) \<in> set (workloads k). isManagedVPASpec kind w x))"
proof -
  note any = createVPAs_any [OF assms]
  have sub: "set (createCalls ev) \<subseteq>
      set (map (\<lambda>(kind, w). (Namespace w, managedVPA ''apps/v1'' kind w))
             (filter (\<lambda>(kind, w). \<not> hasVPA st w) (workloads k)))"
    using any [THEN conjunct1] unfolding toCreate_items .
  have new: "\<forall>x \<in> set st'. x \<in> set st \<or>
               (\<exists>(kind, w) \<in> set (workloads k).
                  \<not> hasVPA st w \<and> x = managedVPA ''apps/v1'' kind w)"
    using any [THEN conjunct2, THEN conjunct2, THEN conjunct2] .
  have a: "\<exists>(kind, w) \<in> set (workloads k). ns = Namespace w \<and> isManagedVPASpec kind w obj"
    if "Create ns obj \<in> set ev" for ns obj
  proof -
    have "(ns, obj) \<in> set (createCalls ev)"
      using that by (simp add: Create_in_events)
    then have "(ns, obj) \<in> set (map (\<lambda>(kind, w). (Namespace w, managedVPA ''apps/v1'' kind w))
             (filter (\<lambda>(kind, w). \<not> hasVPA st w) (workloads k)))"
      using sub by (rule rev_subsetD)
    then obtain kind w where kw: "(kind, w) \<in> set (workloads k)" "ns = Namespace w"
      "obj = managedVPA ''apps/v1'' kind w" by auto
    have "isManagedVPASpec kind w obj"
      unfolding kw(3) by (rule isManagedVPASpec_managedVPA)
    then show ?thesis using kw(1,2) by (intro bexI [of _ "(kind, w)"]) simp_all
  qed
  have b: "\<exists>(kind, w) \<in> set (workloads k). isManagedVPASpec kind w x"
    if "x \<in> set st'" "x \<notin> set st" for x
  proof -
    from new that obtain kind w where kw: "(kind, w) \<in> set (workloads k)"
      "x = managedVPA ''apps/v1'' kind w" by blast
    have "isManagedVPASpec kind w x"
      unfolding kw(2) by (rule isManagedVPASpec_managedVPA)
    then show ?thesis using kw(1) by (intro bexI [of _ "(kind, w)"]) simp_all
  qed
  show ?thesis using a b by blast
qed

theorem created_objects_have_the_managed_shape_witness:
  "Create ''default'' (managedVPA ''apps/v1'' ''StatefulSet'' (target ''db'' ''default''))
     \<in> set (fst (snd (createVPAs reliable exK8s exVPAs)))
   \<and> (\<exists>(kind, w) \<in> set (workloads exK8s).
         ''default'' = Namespace w
         \<and> isManagedVPASpec kind w
             (managedVPA ''apps/v1'' ''StatefulSet'' (target ''db'' ''default'')))
   \<and> managedVPA ''apps/v1'' ''StatefulSet'' (target ''db'' ''default'')
       \<in> set (snd (snd (createVPAs reliable exK8s exVPAs))) - set exVPAs"
proof -
  let ?R = "createVPAs reliable exK8s exVPAs"
  let ?o = "managedVPA ''apps/v1'' ''StatefulSet'' (target ''db'' ''default'')"
  have run: "?R = (fst ?R, fst (snd ?R), snd (snd ?R))" by simp
  note t = created_objects_have_the_managed_shape [OF run]
  have c: "Create ''default'' ?o \<in> set (fst (snd ?R))" by code_simp
  have s: "?o \<in> set (snd (snd ?R))" "?o \<notin> set exVPAs" by code_simp+
  show ?thesis using t c s by blast
qed

text \<open>
  C8. The snapshot is taken once and is not updated by the creates of the cycle: when two
  listed workloads of different kinds have the same name and namespace and the snapshot
  holds no object of that name and namespace, both create calls are made, for two objects
  that differ in the kind of the target reference only.
\<close>

theorem same_name_different_kind_both_created:
  assumes "listErr c = None" and "Deployments k = Inr ds" and "StatefulSets k = Inr ss"
    and "DaemonSets k = Inr dss" and "createVPAs c k st = (res, ev, st')"
    and "(kind1, w1) \<in> set (workloads k)" and "(kind2, w2) \<in> set (workloads k)"
    and "kind1 \<noteq> kind2" and "Name w1 = Name w2" and "Namespace w1 = Namespace w2"
    and "\<not> (\<exists>v \<in> set st. Name v = Name w1 \<and> Namespace v = Namespace w1)"
  shows "Create (Namespace w1) (managedVPA ''apps/v1'' kind1 w1) \<in> set ev
         \<and> Create (Namespace w1) (managedVPA ''apps/v1'' kind2 w1) \<in> set ev
         \<and> managedVPA ''apps/v1'' kind1 w1 \<noteq> managedVPA ''apps/v1'' kind2 w1
         \<and> w2 = w1"
proof -
  have w: "w2 = w1" using assms(9,10) by simp
  have n: "\<not> hasVPA st w1" using assms(11) by (simp add: hasVPA_def)
  have "Create (Namespace w1) (managedVPA ''apps/v1'' kind1 w1) \<in> set ev"
    using createVPAs_Create_iff [OF assms(1-5) assms(6)] n by simp
  moreover have "Create (Namespace w1) (managedVPA ''apps/v1'' kind2 w1) \<in> set ev"
    using createVPAs_Create_iff [OF assms(1-5) assms(7)] n w by simp
  moreover have "managedVPA ''apps/v1'' kind1 w1 \<noteq> managedVPA ''apps/v1'' kind2 w1"
    using assms(8) by (simp add: managedVPA_inject)
  ultimately show ?thesis using w by blast
qed

theorem same_name_different_kind_both_created_witness:
  "(''Deployment'', target ''app'' ''ns'')
     \<in> set (workloads (k8s [target ''app'' ''ns''] [target ''app'' ''ns''] []))
   \<and> (''StatefulSet'', target ''app'' ''ns'')
       \<in> set (workloads (k8s [target ''app'' ''ns''] [target ''app'' ''ns''] []))
   \<and> createCalls (fst (snd (createVPAs reliable
                              (k8s [target ''app'' ''ns''] [target ''app'' ''ns''] []) [])))
       = [(''ns'', managedVPA ''apps/v1'' ''Deployment'' (target ''app'' ''ns'')),
          (''ns'', managedVPA ''apps/v1'' ''StatefulSet'' (target ''app'' ''ns''))]
   \<and> Create ''ns'' (managedVPA ''apps/v1'' ''Deployment'' (target ''app'' ''ns''))
       \<in> set (fst (snd (createVPAs reliable
                          (k8s [target ''app'' ''ns''] [target ''app'' ''ns''] []) [])))
   \<and> Create ''ns'' (managedVPA ''apps/v1'' ''StatefulSet'' (target ''app'' ''ns''))
       \<in> set (fst (snd (createVPAs reliable
                          (k8s [target ''app'' ''ns''] [target ''app'' ''ns''] []) [])))"
proof -
  let ?k = "k8s [target ''app'' ''ns''] [target ''app'' ''ns''] []"
  let ?R = "createVPAs reliable ?k []"
  have h1: "listErr reliable = None" by (simp add: reliable_def)
  have h2: "Deployments ?k = Inr [target ''app'' ''ns'']"
    and h3: "StatefulSets ?k = Inr [target ''app'' ''ns'']"
    and h4: "DaemonSets ?k = Inr []"
    by (simp_all add: k8s_def)
  have run: "?R = (fst ?R, fst (snd ?R), snd (snd ?R))" by simp
  have w1: "(''Deployment'', target ''app'' ''ns'') \<in> set (workloads ?k)"
    and w2: "(''StatefulSet'', target ''app'' ''ns'') \<in> set (workloads ?k)"
    by code_simp+
  have ne: "''Deployment'' \<noteq> ''StatefulSet''" by simp
  have no: "\<not> (\<exists>v \<in> set ([] :: VerticalPodAutoscaler list).
                Name v = Name (target ''app'' ''ns'')
                \<and> Namespace v = Namespace (target ''app'' ''ns''))" by simp
  note t = same_name_different_kind_both_created [OF h1 h2 h3 h4 run w1 w2 ne refl refl no]
  have ns: "Namespace (target ''app'' ''ns'') = ''ns''" by (simp add: target_def)
  have cc: "createCalls (fst (snd ?R))
       = [(''ns'', managedVPA ''apps/v1'' ''Deployment'' (target ''app'' ''ns'')),
          (''ns'', managedVPA ''apps/v1'' ''StatefulSet'' (target ''app'' ''ns''))]"
    by code_simp
  show ?thesis using t w1 w2 cc unfolding ns by blast
qed

text \<open>
  C9. The name in the target reference is never read. A cycle run on a snapshot that agrees
  with \<open>st\<close> object by object on name, namespace and target kind makes the create
  calls planned for \<open>st\<close> and follows the delete plan of \<open>st\<close>; an object with
  the name and namespace of a workload suppresses the create call for that workload,
  whatever its target reference names; and against a client whose answers do not depend
  on target reference names either, the two cycles end the same way, with the same log
  records and calls, and leave stores that agree in the same sense.
\<close>

theorem target_reference_name_is_never_consulted:
  assumes "listErr c = None" and "Deployments k = Inr ds" and "StatefulSets k = Inr ss"
    and "DaemonSets k = Inr dss" and "list_all2 sameDecisionKey st st2"
    and "createVPAs c k st2 = (res, ev, st')"
  shows "createCalls ev =
           toCreate ''Deployment'' ds st @ toCreate ''StatefulSet'' ss st
           @ toCreate ''DaemonSet'' dss st
         \<and> prefix (deleteCalls ev) (toDelete ds ss dss st)
         \<and> (res = Inr None \<longrightarrow> deleteCalls ev = toDelete ds ss dss st)
         \<and> (\<forall>(kind, w) \<in> set (workloads k).
              (\<exists>v \<in> set st2. Name v = Name w \<and> Namespace v = Namespace w) \<longrightarrow>
              Create (Namespace w) (managedVPA ''apps/v1'' kind w) \<notin> set ev)
         \<and> ((\<forall>s s2. list_all2 sameDecisionKey s s2 \<longrightarrow>
                createErr c s = createErr c s2 \<and> deleteErr c s = deleteErr c s2) \<longrightarrow>
              (\<exists>st1. createVPAs c k st = (res, ev, st1) \<and> list_all2 sameDecisionKey st1 st'))"
proof -
  note eq = list_all2_sameDecisionKey [OF assms(5)]
  have tc: "toCreate kind ws st2 = toCreate kind ws st" for kind ws
    by (simp add: toCreate_def eq(1))
  note f = assms(1-4) assms(6)
  have n: "Create (Namespace w) (managedVPA ''apps/v1'' kind w) \<notin> set ev"
    if "(kind, w) \<in> set (workloads k)"
      "\<exists>v \<in> set st2. Name v = Name w \<and> Namespace v = Namespace w" for kind w
    using createVPAs_Create_iff [OF f that(1)] that(2) by (simp add: hasVPA_def)
  have old: "createCalls ev =
           toCreate ''Deployment'' ds st @ toCreate ''StatefulSet'' ss st
           @ toCreate ''DaemonSet'' dss st
         \<and> prefix (deleteCalls ev) (toDelete ds ss dss st)
         \<and> (res = Inr None \<longrightarrow> deleteCalls ev = toDelete ds ss dss st)
         \<and> (\<forall>(kind, w) \<in> set (workloads k).
              (\<exists>v \<in> set st2. Name v = Name w \<and> Namespace v = Namespace w) \<longrightarrow>
              Create (Namespace w) (managedVPA ''apps/v1'' kind w) \<notin> set ev)"
    using n createVPAs_calls [OF f] by (auto simp: tc eq(2))
  have new: "\<exists>st1. createVPAs c k st = (res, ev, st1) \<and> list_all2 sameDecisionKey st1 st'"
    if H: "\<forall>s s2. list_all2 sameDecisionKey s s2 \<longrightarrow>
                createErr c s = createErr c s2 \<and> deleteErr c s = deleteErr c s2"
  proof -
    note x = sim_createVPAs [OF assms(1-4) H assms(5)]
    have "createVPAs c k st = (res, ev, snd (snd (createVPAs c k st)))"
      using x assms(6) by (metis fst_conv prod.collapse snd_conv)
    moreover have "list_all2 sameDecisionKey (snd (snd (createVPAs c k st))) st'"
      using x assms(6) by simp
    ultimately show ?thesis by blast
  qed
  show ?thesis using old new by blast
qed

theorem target_reference_name_is_never_consulted_witness:
  "list_all2 sameDecisionKey exVPAs exRetargeted
   \<and> createCalls (fst (snd (createVPAs reliable exK8s exRetargeted)))
       = createCalls (fst (snd (createVPAs reliable exK8s exVPAs)))
   \<and> fst (createVPAs reliable exK8s exRetargeted) = Inr None
   \<and> deleteCalls (fst (snd (createVPAs reliable exK8s exRetargeted)))
       = [(''ns'', ''api''), (''default'', ''old'')]
   \<and> Create ''ns'' (managedVPA ''apps/v1'' ''Deployment'' (target ''api'' ''ns''))
       \<notin> set (fst (snd (createVPAs reliable exK8s exRetargeted)))
   \<and> fst (createVPAs reliable exK8s exVPAs) = fst (createVPAs reliable exK8s exRetargeted)
   \<and> fst (snd (createVPAs reliable exK8s exVPAs))
       = fst (snd (createVPAs reliable exK8s exRetargeted))
   \<and> fst (createVPAs (denyDelete ''old'') exK8s exVPAs)
       = fst (createVPAs (denyDelete ''old'') exK8s exRetargeted)
   \<and> deleteCalls (fst (snd (createVPAs (denyDelete ''old'') exK8s exVPAs)))
       = deleteCalls (fst (snd (createVPAs (denyDelete ''old'') exK8s exRetargeted)))"
proof -
  let ?R = "createVPAs reliable exK8s exRetargeted"
  have h1: "listErr reliable = None" by (simp add: reliable_def)
  have h2: "Deployments exK8s = Inr [target ''api'' ''ns'', target ''web'' ''default'']"
    and h3: "StatefulSets exK8s = Inr [target ''db'' ''default'']"
    and h4: "DaemonSets exK8s = Inr []"
    by (simp_all add: exK8s_def k8s_def)
  have h5: "list_all2 sameDecisionKey exVPAs exRetargeted" by code_simp
  have run: "?R = (fst ?R, fst (snd ?R), snd (snd ?R))" by simp
  note t = target_reference_name_is_never_consulted [OF h1 h2 h3 h4 h5 run]
  note t3 = t [THEN conjunct2, THEN conjunct2, THEN conjunct1]
  note t4 = t [THEN conjunct2, THEN conjunct2, THEN conjunct2, THEN conjunct1]
  note t5 = t [THEN conjunct2, THEN conjunct2, THEN conjunct2, THEN conjunct2]
  have r: "fst ?R = Inr None" by code_simp
  have td: "toDelete [target ''api'' ''ns'', target ''web'' ''default'']
              [target ''db'' ''default''] [] exVPAs = [(''ns'', ''api''), (''default'', ''old'')]"
    by code_simp
  have tc: "toCreate ''Deployment'' [target ''api'' ''ns'', target ''web'' ''default''] exVPAs
            @ toCreate ''StatefulSet'' [target ''db'' ''default''] exVPAs
            @ toCreate ''DaemonSet'' [] exVPAs
            = createCalls (fst (snd (createVPAs reliable exK8s exVPAs)))"
    by code_simp
  have c1: "createCalls (fst (snd ?R)) = createCalls (fst (snd (createVPAs reliable exK8s exVPAs)))"
    using t [THEN conjunct1] unfolding tc .
  have c3: "deleteCalls (fst (snd ?R)) = [(''ns'', ''api''), (''default'', ''old'')]"
    using t3 [THEN mp, OF r] unfolding td .
  have w: "(''Deployment'', target ''api'' ''ns'') \<in> set (workloads exK8s)" by code_simp
  have v: "\<exists>v \<in> set exRetargeted. Name v = Name (target ''api'' ''ns'')
             \<and> Namespace v = Namespace (target ''api'' ''ns'')" by code_simp
  have ns: "Namespace (target ''api'' ''ns'') = ''ns''" by (simp add: target_def)
  have "Create (Namespace (target ''api'' ''ns''))
          (managedVPA ''apps/v1'' ''Deployment'' (target ''api'' ''ns'')) \<notin> set (fst (snd ?R))"
    using t4 w v by blast
  then have c4: "Create ''ns'' (managedVPA ''apps/v1'' ''Deployment'' (target ''api'' ''ns''))
       \<notin> set (fst (snd ?R))" unfolding ns .
  have H: "\<forall>s s2. list_all2 sameDecisionKey s s2 \<longrightarrow>
             createErr reliable s = createErr reliable s2
             \<and> deleteErr reliable s = deleteErr reliable s2"
    by (simp add: reliable_def)
  from t5 [THEN mp, OF H] obtain st1 where
    x: "createVPAs reliable exK8s exVPAs = (fst ?R, fst (snd ?R), st1)" by blast
  have c5: "fst (createVPAs reliable exK8s exVPAs) = fst ?R"
    and c6: "fst (snd (createVPAs reliable exK8s exVPAs)) = fst (snd ?R)"
    unfolding x by simp_all
  let ?d = "denyDelete ''old''"
  let ?S = "createVPAs ?d exK8s exRetargeted"
  have g1: "listErr ?d = None" by (simp add: denyDelete_def)
  have runS: "?S = (fst ?S, fst (snd ?S), snd (snd ?S))" by simp
  note u = target_reference_name_is_never_consulted [OF g1 h2 h3 h4 h5 runS]
  have H': "\<forall>s s2. list_all2 sameDecisionKey s s2 \<longrightarrow>
             createErr ?d s = createErr ?d s2 \<and> deleteErr ?d s = deleteErr ?d s2"
    by (simp add: denyDelete_def)
  from u [THEN conjunct2, THEN conjunct2, THEN conjunct2, THEN conjunct2, THEN mp, OF H']
  obtain st1' where y: "createVPAs ?d exK8s exVPAs = (fst ?S, fst (snd ?S), st1')" by blast
  have c7: "fst (createVPAs ?d exK8s exVPAs) = fst ?S"
    and c8: "deleteCalls (fst (snd (createVPAs ?d exK8s exVPAs))) = deleteCalls (fst (snd ?S))"
    unfolding y by simp_all
  show ?thesis
    by (intro conjI) (rule h5 c1 r c3 c4 c5 c6 c7 c8)+
qed



end
